theory Spec2Isabelle
  imports Main "HOL-Library.Char_ord" "HOL-Library.List_Lexorder"
begin

section \<open>Strings\<close>

text \<open>
  A JavaScript string is modelled as a \<^typ>\<open>string\<close>: each \<^typ>\<open>char\<close> stands for one
  code unit in the range 0..255.  Code units above 255 (among them the byte-order mark
  U+FEFF and the separators U+2028 and U+2029) are outside the model; \<open>contents\<close> below is
  the text of a file after its leading byte-order mark is removed.  The functions of this section
  model the ECMAScript and underscore.string primitives the module calls.
\<close>

definition isLineTerminator :: "char \<Rightarrow> bool" where
  "isLineTerminator c = (c = CHR 0x0A \<or> c = CHR 0x0D)"

text \<open>The class \<open>\s\<close> of a regular expression, and what \<open>trim\<close> removes.\<close>

definition isWhiteSpace :: "char \<Rightarrow> bool" where
  "isWhiteSpace c =
     (c = CHR 0x09 \<or> c = CHR 0x0A \<or> c = CHR 0x0B \<or> c = CHR 0x0C \<or> c = CHR 0x0D
      \<or> c = CHR 0x20 \<or> c = CHR 0xA0)"

definition trim :: "string \<Rightarrow> string" where
  "trim s = rev (dropWhile isWhiteSpace (rev (dropWhile isWhiteSpace s)))"

text \<open>\<open>stripPrefix p s\<close> is the rest of \<open>s\<close> after the literal \<open>p\<close>, when \<open>s\<close> starts with it.\<close>

fun stripPrefix :: "string \<Rightarrow> string \<Rightarrow> string option" where
  "stripPrefix [] s = Some s"
| "stripPrefix (p # ps) [] = None"
| "stripPrefix (p # ps) (c # cs) = (if p = c then stripPrefix ps cs else None)"

text \<open>\<open>_str.contains(str, needle)\<close>: \<open>needle\<close> occurs in \<open>str\<close>.\<close>

fun strContains :: "string \<Rightarrow> string \<Rightarrow> bool" where
  "strContains [] needle = (needle = [])"
| "strContains (c # cs) needle =
     (stripPrefix needle (c # cs) \<noteq> None \<or> strContains cs needle)"

text \<open>\<open>_str.endsWith(str, ends)\<close>.\<close>

definition endsWith :: "string \<Rightarrow> string \<Rightarrow> bool" where
  "endsWith s e = (length e \<le> length s \<and> drop (length s - length e) s = e)"

text \<open>\<open>s.split(d)\<close> for a one-character separator: never the empty list.\<close>

fun splitOn :: "char \<Rightarrow> string \<Rightarrow> string list" where
  "splitOn d [] = [[]]"
| "splitOn d (c # cs) =
     (if c = d then [] # splitOn d cs
      else (case splitOn d cs of [] \<Rightarrow> [[c]] | l # ls \<Rightarrow> (c # l) # ls))"

text \<open>\<open>contents.split(/\r\n|\r|\n/)\<close>.\<close>

fun splitLines :: "string \<Rightarrow> string list" where
  "splitLines [] = [[]]"
| "splitLines (c # cs) =
     (if c = CHR 0x0D then
        (case cs of
           d # ds \<Rightarrow> if d = CHR 0x0A then [] # splitLines ds else [] # splitLines cs
         | [] \<Rightarrow> [] # splitLines cs)
      else if c = CHR 0x0A then [] # splitLines cs
      else (case splitLines cs of [] \<Rightarrow> [[c]] | l # ls \<Rightarrow> (c # l) # ls))"

text \<open>\<open>lines.join(sep)\<close>.\<close>

fun joinWith :: "string \<Rightarrow> string list \<Rightarrow> string" where
  "joinWith sep [] = []"
| "joinWith sep [l] = l"
| "joinWith sep (l # m # ls) = l @ sep @ joinWith sep (m # ls)"

text \<open>\<open>toLowerCase\<close> on the code units of the model (ASCII and Latin-1 capitals).\<close>

definition lowerChar :: "char \<Rightarrow> char" where
  "lowerChar c =
     (let n = (of_char c :: nat) in
      if (65 \<le> n \<and> n \<le> 90) \<or> (192 \<le> n \<and> n \<le> 222 \<and> n \<noteq> 215)
      then char_of (n + 32) else c)"

definition toLowerCase :: "string \<Rightarrow> string" where
  "toLowerCase s = map lowerChar s"

text \<open>
  The operator \<open>a && b\<close> on strings: the empty string is the only falsy string, and
  the operator yields its first operand when that is falsy.
\<close>

definition jsAnd :: "string \<Rightarrow> string \<Rightarrow> string" where
  "jsAnd a b = (if a = [] then a else b)"

section \<open>Paths\<close>

text \<open>
  The functions of Node's \<open>path\<close> module that the module calls, for POSIX paths
  (separator \<open>/\<close>), following the implementation that splits a path into root, directory,
  base name and extension.
\<close>

definition isSlash :: "char \<Rightarrow> bool" where
  "isSlash c = (c = CHR ''/'')"

definition isAbsolute :: "string \<Rightarrow> bool" where
  "isAbsolute p = (case p of [] \<Rightarrow> False | c # _ \<Rightarrow> isSlash c)"

text \<open>The path without its root slash and without trailing slashes.\<close>

definition pathCore :: "string \<Rightarrow> string" where
  "pathCore p =
     rev (dropWhile isSlash (rev (if isAbsolute p then tl p else p)))"

text \<open>The last component, and everything before it (with its slash).\<close>

definition lastPart :: "string \<Rightarrow> string" where
  "lastPart p = rev (takeWhile (\<lambda>c. \<not> isSlash c) (rev (pathCore p)))"

definition dirPart :: "string \<Rightarrow> string" where
  "dirPart p = rev (dropWhile (\<lambda>c. \<not> isSlash c) (rev (pathCore p)))"

text \<open>\<open>path.basename(p)\<close> and \<open>path.basename(p, ext)\<close>.\<close>

definition basename :: "string \<Rightarrow> string" where
  "basename p = lastPart p"

definition basenameExt :: "string \<Rightarrow> string \<Rightarrow> string" where
  "basenameExt p ext =
     (let f = lastPart p in
      if ext \<noteq> [] \<and> endsWith f ext then take (length f - length ext) f else f)"

text \<open>\<open>path.dirname(p)\<close>.\<close>

definition dirname :: "string \<Rightarrow> string" where
  "dirname p =
     (let root = (if isAbsolute p then ''/'' else ''''); dir = dirPart p in
      if root = [] \<and> dir = [] then ''.'' else root @ butlast dir)"

text \<open>\<open>path.extname(p)\<close>: from the last dot of the base name, unless that dot starts it.\<close>

definition extname :: "string \<Rightarrow> string" where
  "extname p =
     (let f = lastPart p;
          e = rev (takeWhile (\<lambda>c. c \<noteq> CHR ''.'') (rev f))
      in if f = ''..'' \<or> length f \<le> length e + 1 then '''' else drop (length f - length e - 1) f)"

text \<open>
  Normalisation of path components: \<open>.\<close> is dropped and \<open>..\<close> cancels the component
  before it; the components are read from the last to the first, counting the pending
  \<open>..\<close>.
\<close>

definition normStep :: "string \<Rightarrow> nat \<times> string list \<Rightarrow> nat \<times> string list" where
  "normStep seg st =
     (case st of (up, acc) \<Rightarrow>
        if seg = ''.'' then (up, acc)
        else if seg = ''..'' then (Suc up, acc)
        else if 0 < up then (up - 1, acc)
        else (up, seg # acc))"

definition normalizeArray :: "string list \<Rightarrow> bool \<Rightarrow> string list" where
  "normalizeArray parts allowAboveRoot =
     (case foldr normStep parts (0, []) of (up, acc) \<Rightarrow>
        if allowAboveRoot then replicate up ''..'' @ acc else acc)"

definition pathParts :: "string \<Rightarrow> string list" where
  "pathParts p = filter (\<lambda>s. s \<noteq> []) (splitOn (CHR ''/'') p)"

text \<open>\<open>path.normalize(p)\<close> and \<open>path.join(a, b)\<close>.\<close>

definition normalize :: "string \<Rightarrow> string" where
  "normalize p =
     (let path0 = joinWith ''/'' (normalizeArray (pathParts p) (\<not> isAbsolute p));
          path1 = (if path0 = [] \<and> \<not> isAbsolute p then ''.'' else path0);
          path2 = (if path1 \<noteq> [] \<and> p \<noteq> [] \<and> isSlash (last p) then path1 @ ''/'' else path1)
      in (if isAbsolute p then ''/'' else '''') @ path2)"

definition pathJoin :: "string \<Rightarrow> string \<Rightarrow> string" where
  "pathJoin a b = normalize (joinWith ''/'' (filter (\<lambda>s. s \<noteq> []) [a, b]))"

text \<open>
  \<open>path.resolve(p)\<close> against the working directory \<open>cwd\<close> (an absolute path), as the
  list of its components.
\<close>

definition resolveParts :: "string \<Rightarrow> string \<Rightarrow> string list" where
  "resolveParts cwd p =
     normalizeArray (pathParts (if isAbsolute p then p else cwd @ ''/'' @ p)) False"

text \<open>The test \<open>path.relative(from, to) === ''\<close>: both resolve to the same path.\<close>

definition relativeIsEmpty :: "string \<Rightarrow> string \<Rightarrow> string \<Rightarrow> bool" where
  "relativeIsEmpty cwd from to = (resolveParts cwd from = resolveParts cwd to)"

section \<open>The environment of a run\<close>

text \<open>
  What the module reads from its host and from the helper module \<open>utils\<close>, whose source
  is not part of the sources at hand: the host's line ending \<open>os.EOL\<close>, the working
  directory that \<open>path.relative\<close> resolves against, \<open>fs.existsSync\<close>,
  \<open>fs.lstatSync(f).isDirectory()\<close>, the paths (of files and of sub-directories, at any
  depth) that are found inside a directory, and \<open>utils.makeRelativePath\<close>, which is
  taken as it is.
\<close>

record env =
  EOL :: string
  cwd :: string
  existsSync :: "string \<Rightarrow> bool"
  isDirectory :: "string \<Rightarrow> bool"
  dirFiles :: "string \<Rightarrow> string list"
  makeRelativePath :: "string \<Rightarrow> string \<Rightarrow> bool \<Rightarrow> string"

text \<open>
  Modelled from the spec: \<open>utils.getFiles(dir, exclude)\<close> is not among the sources.  The
  spec (section 4.1) has a directory match yield every file inside the directory that
  passes the conditions of the callback and is not a sub-directory; the callback of
  \<open>getImports\<close> answers \<open>true\<close> for a file to leave out (``exclude current file'').  So a
  path is yielded when the callback does not exclude it and it is not a directory.
\<close>

definition getFiles :: "env \<Rightarrow> string \<Rightarrow> (string \<Rightarrow> bool) \<Rightarrow> string list" where
  "getFiles e dir exclude =
     filter (\<lambda>f. \<not> exclude f \<and> \<not> isDirectory e f) (dirFiles e dir)"

section \<open>Name resolution: \<open>getImports\<close>\<close>

text \<open>The test of the file-name scan (lines 24 to 29).\<close>

definition fileNameMatches :: "string \<Rightarrow> string \<Rightarrow> bool" where
  "fileNameMatches name targetFile =
     (basename targetFile = name
      \<or> basenameExt targetFile ''.d.ts'' = name
      \<or> basenameExt targetFile ''.ts'' = name)"

text \<open>The callback handed to \<open>utils.getFiles\<close> (lines 52 to 59): \<open>True\<close> leaves the file out.\<close>

definition excludeFile :: "env \<Rightarrow> string \<Rightarrow> string \<Rightarrow> bool" where
  "excludeFile e currentFilePath filename =
     (if relativeIsEmpty (cwd e) currentFilePath filename then True
      else extname filename \<noteq> []
           \<and> (\<not> endsWith filename ''.ts'' \<or> endsWith filename ''.d.ts'')
           \<and> \<not> isDirectory e filename)"

text \<open>
  \<open>getImports\<close>.  \<open>_.find\<close> yields the first element that passes the test; the tests
  \<open>if (targetFile)\<close> and \<open>if (targetDir)\<close> fail on the empty string as well.
\<close>

definition getImports ::
  "env \<Rightarrow> string \<Rightarrow> string \<Rightarrow> string list \<Rightarrow> string list \<Rightarrow> bool \<Rightarrow> string list" where
  "getImports e currentFilePath name targetFiles targetDirs getIndexIfDir =
     (let files =
        (case find (fileNameMatches name) targetFiles of
           None \<Rightarrow> []
         | Some targetFile \<Rightarrow> if targetFile \<noteq> [] then [targetFile] else [])
      in case find (\<lambda>targetDir. basename targetDir = name) targetDirs of
           None \<Rightarrow> files
         | Some targetDir \<Rightarrow>
             if targetDir = [] then files
             else
               (let possibleIndexFilePath = pathJoin targetDir ''index.ts'' in
                if getIndexIfDir
                   \<and> existsSync e possibleIndexFilePath
                   \<and> \<not> relativeIsEmpty (cwd e) currentFilePath possibleIndexFilePath
                then files @ [pathJoin targetDir ''index.ts'']
                else files @ sort (getFiles e targetDir (excludeFile e currentFilePath))))"

section \<open>The directive kinds\<close>

datatype kind = Import | Export | Reference | Unknown

text \<open>The transformers in the order of the list in \<open>transformFiles\<close>.\<close>

definition transformers :: "kind list" where
  "transformers = [Import, Export, Reference, Unknown]"

fun key :: "kind \<Rightarrow> string" where
  "key Import = ''import''"
| "key Export = ''export''"
| "key Reference = ''ref''"
| "key Unknown = ''unknown''"

fun variableSyntax :: "kind \<Rightarrow> string" where
  "variableSyntax Import = ''<fileOrDirectoryName>[,<variableName>]''"
| "variableSyntax Export = ''<fileOrDirectoryName>[,<variableName>]''"
| "variableSyntax Reference = ''<fileOrDirectoryName>''"
| "variableSyntax Unknown = []"

fun getIndexIfDir :: "kind \<Rightarrow> bool" where
  "getIndexIfDir Import = True"
| "getIndexIfDir Export = False"
| "getIndexIfDir Reference = False"
| "getIndexIfDir Unknown = False"

fun removeExtensionFromFilePath :: "kind \<Rightarrow> bool" where
  "removeExtensionFromFilePath Import = True"
| "removeExtensionFromFilePath Export = True"
| "removeExtensionFromFilePath Reference = False"
| "removeExtensionFromFilePath Unknown = False"

definition signatureGenerated :: "kind \<Rightarrow> string" where
  "signatureGenerated k = ''///ts:'' @ key k @ '':generated''"

definition syntaxError :: "kind \<Rightarrow> string" where
  "syntaxError k =
     (if k = Unknown then ''/// Unknown transform '' @ signatureGenerated k
      else ''/// Invalid syntax for ts:'' @ key k @ ''='' @ variableSyntax k @ '' ''
           @ signatureGenerated k)"

definition isGenerated :: "kind \<Rightarrow> string \<Rightarrow> bool" where
  "isGenerated k line = strContains line (signatureGenerated k)"

subsection \<open>The signature patterns\<close>

text \<open>
  \<open>sigRest line\<close> matches \<open>^///\s*ts:\<close> at the start of \<open>line\<close> and yields what follows;
  \<open>dotStar\<close> is what \<open>(.*)\<close> captures, up to a line terminator.
\<close>

definition sigRest :: "string \<Rightarrow> string option" where
  "sigRest line =
     (case stripPrefix ''///'' line of
        None \<Rightarrow> None
      | Some r \<Rightarrow> stripPrefix ''ts:'' (dropWhile isWhiteSpace r))"

definition dotStar :: "string \<Rightarrow> string" where
  "dotStar s = takeWhile (\<lambda>c. \<not> isLineTerminator c) s"

text \<open>
  The pattern \<open>^///\s*ts:KEY(=?)(.*)\<close> for a literal key: the pair of the two captures.
\<close>

definition matchesKey :: "string \<Rightarrow> string \<Rightarrow> (string \<times> string) option" where
  "matchesKey k line =
     (case sigRest line of
        None \<Rightarrow> None
      | Some r \<Rightarrow>
          (case stripPrefix k r of
             None \<Rightarrow> None
           | Some r' \<Rightarrow>
               (case r' of
                  [] \<Rightarrow> Some ([], dotStar r')
                | c # cs \<Rightarrow>
                    if c = CHR ''='' then Some (''='', dotStar cs) else Some ([], dotStar r'))))"

text \<open>
  \<open>matches\<close>: the captures 1 and 2 of the transformer's pattern.  The unknown transformer
  is built with the key \<open>(.*)\<close>, so its pattern is \<open>^///\s*ts:(.*)(=?)(.*)\<close>: the first
  capture takes the rest of the line and the second is empty.
\<close>

fun matches :: "kind \<Rightarrow> string \<Rightarrow> (string \<times> string) option" where
  "matches Unknown line =
     (case sigRest line of None \<Rightarrow> None | Some r \<Rightarrow> Some (dotStar r, []))"
| "matches k line = matchesKey (key k) line"

text \<open>\<open>containsTransformSignature\<close>: the pattern \<open>///\s*ts:\<close> anywhere in the text.\<close>

fun containsTransformSignature :: "string \<Rightarrow> bool" where
  "containsTransformSignature [] = False"
| "containsTransformSignature (c # cs) =
     (sigRest (c # cs) \<noteq> None \<or> containsTransformSignature cs)"

subsection \<open>Expansion\<close>

text \<open>The three templates; the one of \<open>export\<close> spans two lines.\<close>

fun template :: "env \<Rightarrow> kind \<Rightarrow> string \<Rightarrow> string \<Rightarrow> string" where
  "template e Import filename pathToFile =
     ''import '' @ filename @ '' = require('' @ [CHR 0x27] @ pathToFile @ [CHR 0x27] @ '');''"
| "template e Export filename pathToFile =
     ''import '' @ filename @ ''_file = require('' @ [CHR 0x27] @ pathToFile @ [CHR 0x27]
     @ ''); '' @ signatureGenerated Export @ EOL e
     @ ''export var '' @ filename @ '' = '' @ filename @ ''_file;''"
| "template e Reference filename pathToFile =
     ''/// <reference path='' @ [CHR 0x22] @ pathToFile @ [CHR 0x22] @ ''/>''"
| "template e Unknown filename pathToFile = []"

text \<open>\<open>completePathToFile.replace(/(?:\.d)?\.ts$/, '')\<close>.\<close>

definition stripTsExtension :: "string \<Rightarrow> string" where
  "stripTsExtension p =
     (if endsWith p ''.d.ts'' then take (length p - 5) p
      else if endsWith p ''.ts'' then take (length p - 3) p
      else p)"

text \<open>The variable \<open>filename\<close> of the loop over the resolved paths (lines 151 to 155).\<close>

definition aliasOf :: "string option \<Rightarrow> string \<Rightarrow> string" where
  "aliasOf requestedVariableName completePathToFile =
     (let filename =
        (case requestedVariableName of
           None \<Rightarrow> basenameExt (basenameExt completePathToFile ''.ts'') ''.d''
         | Some v \<Rightarrow>
             if v \<noteq> [] then v
             else basenameExt (basenameExt completePathToFile ''.ts'') ''.d'')
      in if toLowerCase filename = ''index''
         then basename (dirname completePathToFile)
         else filename)"

text \<open>The line pushed for one resolved path (lines 156 to 162).\<close>

definition importLine :: "env \<Rightarrow> kind \<Rightarrow> string \<Rightarrow> string option \<Rightarrow> string \<Rightarrow> string" where
  "importLine e k sourceFileDirectory requestedVariableName completePathToFile =
     (let filename = aliasOf requestedVariableName completePathToFile;
          pathToFile = makeRelativePath e sourceFileDirectory
            (if removeExtensionFromFilePath k then stripTsExtension completePathToFile
             else completePathToFile) True
      in template e k filename pathToFile @ '' '' @ signatureGenerated k)"

text \<open>
  \<open>transform\<close>: the method of \<open>UnknownTransformer\<close> for \<open>Unknown\<close>, the one of
  \<open>BaseImportExportTransformer\<close> for the other kinds.
\<close>

definition transform ::
  "env \<Rightarrow> string list \<Rightarrow> string list \<Rightarrow> kind \<Rightarrow> string \<Rightarrow> string \<Rightarrow> string list" where
  "transform e currentTargetFiles currentTargetDirs k sourceFile templateVars =
     (if k = Unknown then [syntaxError k]
      else if templateVars \<noteq> [] then
        (case splitOn (CHR '','') templateVars of
           [] \<Rightarrow> []
         | v0 # vs \<Rightarrow>
             (let requestedFileName = trim v0;
                  requestedVariableName = (case vs of [] \<Rightarrow> None | v1 # _ \<Rightarrow> Some (trim v1));
                  sourceFileDirectory = dirname sourceFile;
                  imports = getImports e sourceFile requestedFileName
                    currentTargetFiles currentTargetDirs (getIndexIfDir k)
              in if imports \<noteq> [] then
                   map (importLine e k sourceFileDirectory requestedVariableName) imports
                 else
                   [''/// No file or directory matched name '' @ [CHR 0x22] @ requestedFileName
                    @ [CHR 0x22] @ '' '' @ signatureGenerated k]))
      else [syntaxError k])"

section \<open>The rewrite loop of \<open>transformFiles\<close>\<close>

text \<open>
  \<open>transformFiles\<close> stores the target files and the folders that \<open>getTargetFolders\<close>
  derives from them in \<open>currentTargetFiles\<close> and \<open>currentTargetDirs\<close> and then treats the
  changed files one by one, each independently of the others.  The functions below take
  the two lists as the arguments \<open>tf\<close> and \<open>td\<close> and describe the treatment of one file
  \<open>fileToProcess\<close> with the text \<open>contents\<close>; every property is shown for all lists
  \<open>td\<close>, hence for the one \<open>getTargetFolders\<close> computes.

  The second \<open>_.some\<close> of the loop body (lines 262 to 273): the first transformer that
  matches pushes the line and its expansion; the result is what was pushed, or \<open>None\<close>
  when no transformer matches.
\<close>

fun directiveLines ::
  "env \<Rightarrow> string list \<Rightarrow> string list \<Rightarrow> string \<Rightarrow> string \<Rightarrow> kind list \<Rightarrow> string list option" where
  "directiveLines e tf td fileToProcess line [] = None"
| "directiveLines e tf td fileToProcess line (t # ts) =
     (case matches t line of
        Some (m1, m2) \<Rightarrow>
          Some (line # transform e tf td t fileToProcess (jsAnd m1 (jsAnd m2 (trim m2))))
      | None \<Rightarrow> directiveLines e tf td fileToProcess line ts)"

text \<open>The \<open>for\<close> loop over the lines (lines 248 to 280), with its accumulator.\<close>

fun transformLoop ::
  "env \<Rightarrow> string list \<Rightarrow> string list \<Rightarrow> string \<Rightarrow> string list \<Rightarrow> string list \<Rightarrow> string list" where
  "transformLoop e tf td fileToProcess [] outputLines = outputLines"
| "transformLoop e tf td fileToProcess (line # rest) outputLines =
     (if list_ex (\<lambda>t. isGenerated t line) transformers
      then transformLoop e tf td fileToProcess rest outputLines
      else
        (case directiveLines e tf td fileToProcess line transformers of
           Some pushed \<Rightarrow> transformLoop e tf td fileToProcess rest (outputLines @ pushed)
         | None \<Rightarrow> transformLoop e tf td fileToProcess rest (outputLines @ [line])))"

text \<open>Lines 245 to 281: the transformed content of a file.\<close>

definition transformedContent ::
  "env \<Rightarrow> string list \<Rightarrow> string list \<Rightarrow> string \<Rightarrow> string \<Rightarrow> string" where
  "transformedContent e tf td fileToProcess contents =
     joinWith (EOL e) (transformLoop e tf td fileToProcess (splitLines contents) [])"

text \<open>
  The body of the loop over the changed files (lines 238 to 284), for one file: the
  text handed to \<open>grunt.file.write\<close>, or \<open>None\<close> when nothing is written.
\<close>

definition processFile ::
  "env \<Rightarrow> string list \<Rightarrow> string list \<Rightarrow> string \<Rightarrow> string \<Rightarrow> string option" where
  "processFile e tf td fileToProcess contents =
     (if \<not> containsTransformSignature contents then None
      else
        (let t = transformedContent e tf td fileToProcess contents in
         if t \<noteq> contents then Some t else None))"

text \<open>
  A file as it is stored: whether it starts with a byte-order mark, and the text behind
  that mark.  Reading it (line 238, \<open>readFileSync\<close> and the removal of a leading
  byte-order mark) yields the text; \<open>grunt.file.write\<close> (line 283) stores the text it is
  given, which in this model holds no byte-order mark.  A stored text with a byte-order
  mark anywhere but at its very start is outside the model.
\<close>

datatype storedFile = Stored bool string

fun readContents :: "storedFile \<Rightarrow> string" where
  "readContents (Stored bom contents) = contents"

text \<open>One run of the loop body on a stored file: the file as the run leaves it.\<close>

definition runOnFile ::
  "env \<Rightarrow> string list \<Rightarrow> string list \<Rightarrow> string \<Rightarrow> storedFile \<Rightarrow> storedFile" where
  "runOnFile e tf td fileToProcess stored =
     (case processFile e tf td fileToProcess (readContents stored) of
        None \<Rightarrow> stored
      | Some t \<Rightarrow> Stored False t)"

section \<open>Notions used to state the properties\<close>

text \<open>
  What section 4.4 of the spec says the loop does with one line, in the words of the
  spec: a line that holds a generated marker of some kind is dropped; otherwise the
  kinds are tried in their order and the first that matches keeps the line and puts
  its \<open>transform\<close> output behind it; otherwise the line is kept as it is.  The loop of
  the module is compared with this definition below.
\<close>

definition lineOutputSpec ::
  "env \<Rightarrow> string list \<Rightarrow> string list \<Rightarrow> string \<Rightarrow> string \<Rightarrow> string list" where
  "lineOutputSpec e tf td fileToProcess line =
     (if (\<exists>t\<in>set transformers. isGenerated t line) then []
      else
        (case find (\<lambda>t. matches t line \<noteq> None) transformers of
           None \<Rightarrow> [line]
         | Some t \<Rightarrow>
             (case matches t line of
                None \<Rightarrow> [line]
              | Some (m1, m2) \<Rightarrow>
                  line # transform e tf td t fileToProcess (jsAnd m1 (jsAnd m2 (trim m2))))))"

text \<open>A text without line terminators, such as a line that \<open>split\<close> returned.\<close>

definition noLT :: "string \<Rightarrow> bool" where
  "noLT s = list_all (\<lambda>c. \<not> isLineTerminator c) s"

text \<open>
  A pushed text that the next run takes away again: each of its lines holds a generated
  marker, and it does not end in a carriage return.
\<close>

definition regenerable :: "string \<Rightarrow> bool" where
  "regenerable x =
     ((\<forall>y\<in>set (splitLines x). \<exists>t\<in>set transformers. isGenerated t y)
      \<and> (x = [] \<or> last x \<noteq> CHR 0x0D))"

section \<open>Sample data\<close>

text \<open>
  A host for the examples: the working directory holds \<open>main.ts\<close> and a directory \<open>lib\<close>
  of six files, \<open>lib/index.ts\<close> exists, and the relative path from the working directory
  to a path below it is that path behind \<open>./\<close>.
\<close>

definition sampleEnv :: env where
  "sampleEnv =
     \<lparr> EOL = [CHR 0x0A], cwd = ''/work'',
       existsSync = (\<lambda>p. p = ''lib/index.ts''),
       isDirectory = (\<lambda>p. False),
       dirFiles = (\<lambda>d. if d = ''lib''
          then [''lib/index.ts'', ''lib/b.ts'', ''lib/a.ts'', ''lib/c.d.ts'', ''lib/n.txt'', ''lib/README'']
          else []),
       makeRelativePath = (\<lambda>d p force. if force then ''./'' @ p else p) \<rparr>"


text \<open>
  The keyword of a directive line in the grammar of the spec,
  \<open>///ts:<kind>[=<param1>[,<param2>]]\<close>: the text between \<open>ts:\<close> and the \<open>=\<close>.  It is
  used to state a claim of the spec, not by the module.
\<close>

definition specKeyword :: "string \<Rightarrow> string option" where
  "specKeyword line =
     (case stripPrefix ''///ts:'' line of
        None \<Rightarrow> None
      | Some r \<Rightarrow> Some (takeWhile (\<lambda>c. c \<noteq> CHR ''='') r))"

section \<open>Matching a line\<close>

lemma stripPrefix_Some: "stripPrefix p s = Some r \<longleftrightarrow> s = p @ r"
  by (induction p s rule: stripPrefix.induct) auto

lemma matches_Export_not_Import: "matches Export line = Some m \<Longrightarrow> matches Import line = None"
  by (auto simp: matchesKey_def stripPrefix_Some split: option.splits)

lemma matches_Reference_not_Import: "matches Reference line = Some m \<Longrightarrow> matches Import line = None"
  by (auto simp: matchesKey_def stripPrefix_Some split: option.splits)

lemma matches_Reference_not_Export: "matches Reference line = Some m \<Longrightarrow> matches Export line = None"
  by (auto simp: matchesKey_def stripPrefix_Some split: option.splits)

lemma directiveLines_known:
  assumes "k \<noteq> Unknown" and "matches k line = Some (m1, m2)"
  shows "directiveLines e tf td f line transformers
         = Some (line # transform e tf td k f (jsAnd m1 (jsAnd m2 (trim m2))))"
proof (cases k)
  case Import
  with assms show ?thesis by (simp add: transformers_def)
next
  case Export
  with assms matches_Export_not_Import [of line "(m1, m2)"] show ?thesis
    by (simp add: transformers_def)
next
  case Reference
  with assms matches_Reference_not_Import [of line "(m1, m2)"]
    matches_Reference_not_Export [of line "(m1, m2)"] show ?thesis
    by (simp add: transformers_def)
next
  case Unknown
  with assms show ?thesis by simp
qed

lemma transform_empty: "k \<noteq> Unknown \<Longrightarrow> transform e tf td k f [] = [syntaxError k]"
  by (simp add: transform_def)

lemma transformLoop_single:
  "\<not> list_ex (\<lambda>t. isGenerated t line) transformers \<Longrightarrow>
   directiveLines e tf td f line transformers = Some pushed \<Longrightarrow>
   transformLoop e tf td f [line] out = out @ pushed"
  by simp

lemma dropWhile_all: "\<forall>c\<in>set s. P c \<Longrightarrow> dropWhile P s = []"
  by (induction s) auto

lemma trim_whitespace: "\<forall>c\<in>set s. isWhiteSpace c \<Longrightarrow> trim s = []"
  by (simp add: trim_def dropWhile_all)

section \<open>Syntax errors\<close>

text \<open>
  Claim C8.  A line that matches the pattern of \<open>import\<close>, \<open>export\<close> or \<open>ref\<close> with an
  empty first capture (no \<open>=\<close> behind the key) hands the empty string to \<open>transform\<close>,
  which answers with the kind's syntax-error line alone, whatever the target files, the
  target folders and the host are; the loop pushes the line and that comment.
\<close>

theorem missing_equals_is_syntax_error:
  assumes "k = Import \<or> k = Export \<or> k = Reference"
    and "matches k line = Some ([], m2)"
  shows "jsAnd [] (jsAnd m2 (trim m2)) = []
    \<and> transform e tf td k fileToProcess (jsAnd [] (jsAnd m2 (trim m2))) = [syntaxError k]
    \<and> directiveLines e tf td fileToProcess line transformers = Some [line, syntaxError k]
    \<and> (\<not> list_ex (\<lambda>t. isGenerated t line) transformers \<longrightarrow>
         transformLoop e tf td fileToProcess [line] out = out @ [line, syntaxError k])
    \<and> syntaxError k = ''/// Invalid syntax for ts:'' @ key k @ ''='' @ variableSyntax k
         @ '' ///ts:'' @ key k @ '':generated''"
proof -
  from assms(1) have k: "k \<noteq> Unknown" by auto
  have a: "jsAnd [] (jsAnd m2 (trim m2)) = []" by (simp add: jsAnd_def)
  have t: "transform e tf td k fileToProcess (jsAnd [] (jsAnd m2 (trim m2))) = [syntaxError k]"
    using k by (simp add: a transform_empty)
  have d: "directiveLines e tf td fileToProcess line transformers = Some [line, syntaxError k]"
    using directiveLines_known [OF k assms(2), of e tf td fileToProcess] t by simp
  have s: "syntaxError k = ''/// Invalid syntax for ts:'' @ key k @ ''='' @ variableSyntax k
         @ '' ///ts:'' @ key k @ '':generated''"
    using k by (simp add: syntaxError_def signatureGenerated_def)
  from a t d s show ?thesis by (simp add: transformLoop_single)
qed

theorem missing_equals_is_syntax_error_witness:
  "matches Import ''///ts:import'' = Some ([], [])
   \<and> transformLoop sampleEnv [''lib/a.ts''] [''lib''] ''main.ts'' [''///ts:import''] []
     = [''///ts:import'',
        ''/// Invalid syntax for ts:import=<fileOrDirectoryName>[,<variableName>] ///ts:import:generated'']"
proof -
  have m: "matches Import ''///ts:import'' = Some ([], [])" by code_simp
  have g: "\<not> list_ex (\<lambda>t. isGenerated t ''///ts:import'') transformers" by code_simp
  from missing_equals_is_syntax_error [of Import "''///ts:import''" "[]" sampleEnv
      "[''lib/a.ts'']" "[''lib'']" "''main.ts''" "[]"] m g
  show ?thesis by simp
qed

text \<open>
  Claim C10.  When the \<open>=\<close> is there and the text behind it is empty or white space
  only, \<open>match[1] && match[2] && match[2].trim()\<close> is the empty string again, and the
  outcome is the same syntax-error line as without the \<open>=\<close>.
\<close>

theorem empty_parameters_are_syntax_error:
  assumes "k = Import \<or> k = Export \<or> k = Reference"
    and "matches k line = Some (''='', m2)"
    and "\<forall>c\<in>set m2. isWhiteSpace c"
  shows "jsAnd ''='' (jsAnd m2 (trim m2)) = []
    \<and> transform e tf td k fileToProcess (jsAnd ''='' (jsAnd m2 (trim m2))) = [syntaxError k]
    \<and> directiveLines e tf td fileToProcess line transformers = Some [line, syntaxError k]
    \<and> (\<not> list_ex (\<lambda>t. isGenerated t line) transformers \<longrightarrow>
         transformLoop e tf td fileToProcess [line] out = out @ [line, syntaxError k])"
proof -
  from assms(1) have k: "k \<noteq> Unknown" by auto
  have a: "jsAnd ''='' (jsAnd m2 (trim m2)) = []"
    using assms(3) by (simp add: jsAnd_def trim_whitespace)
  have t: "transform e tf td k fileToProcess (jsAnd ''='' (jsAnd m2 (trim m2))) = [syntaxError k]"
    using k by (simp add: a transform_empty)
  have d: "directiveLines e tf td fileToProcess line transformers = Some [line, syntaxError k]"
    using directiveLines_known [OF k assms(2), of e tf td fileToProcess] t by simp
  from a t d show ?thesis by (simp add: transformLoop_single)
qed

theorem empty_parameters_are_syntax_error_witness:
  "matches Export ''///ts:export=  '' = Some (''='', ''  '')
   \<and> transformLoop sampleEnv [''lib/a.ts''] [''lib''] ''main.ts'' [''///ts:export=  ''] []
     = [''///ts:export=  '', syntaxError Export]
   \<and> transformLoop sampleEnv [''lib/a.ts''] [''lib''] ''main.ts'' [''///ts:export''] []
     = [''///ts:export'', syntaxError Export]"
proof -
  have m: "matches Export ''///ts:export=  '' = Some (''='', ''  '')" by code_simp
  have w: "\<forall>c\<in>set ''  ''. isWhiteSpace c" by (simp add: isWhiteSpace_def)
  have g: "\<not> list_ex (\<lambda>t. isGenerated t ''///ts:export=  '') transformers" by code_simp
  have n: "transformLoop sampleEnv [''lib/a.ts''] [''lib''] ''main.ts'' [''///ts:export''] []
     = [''///ts:export'', syntaxError Export]" by code_simp
  from empty_parameters_are_syntax_error [of Export "''///ts:export=  ''" "''  ''" sampleEnv
      "[''lib/a.ts'']" "[''lib'']" "''main.ts''" "[]"] m w g n
  show ?thesis by simp
qed

lemma directiveLines_first:
  "\<forall>k'\<in>set pre. matches k' line = None \<Longrightarrow> matches k line = Some (m1, m2) \<Longrightarrow>
   directiveLines e tf td f line (pre @ k # post)
   = Some (line # transform e tf td k f (jsAnd m1 (jsAnd m2 (trim m2))))"
  by (induction pre) auto

section \<open>The unknown kind\<close>

text \<open>
  Claim C7, as amended.  A line that starts with the signature \<open>///\<close>, white space,
  \<open>ts:\<close> and whose text behind \<open>ts:\<close> does not start with \<open>import\<close>, \<open>export\<close> or
  \<open>ref\<close> is claimed by the unknown kind, which ignores its parameters and emits the one
  line \<open>/// Unknown transform ///ts:unknown:generated\<close>.  The kinds are tried in the
  order of the list and the first that matches is the only one to expand the line.
  (A keyword that merely starts with a known key, such as \<open>imports\<close>, is claimed by that
  key's kind: see the counterexample.)
\<close>

theorem unknown_kind_claims_the_rest:
  "(sigRest line = Some r \<and> stripPrefix ''import'' r = None \<and> stripPrefix ''export'' r = None
      \<and> stripPrefix ''ref'' r = None \<longrightarrow>
      directiveLines e tf td fileToProcess line transformers
        = Some [line, ''/// Unknown transform ///ts:unknown:generated''])
   \<and> transform e tf td Unknown fileToProcess templateVars
        = [''/// Unknown transform ///ts:unknown:generated'']
   \<and> ((\<forall>k'\<in>set pre. matches k' l = None) \<and> matches k l = Some (m1, m2) \<longrightarrow>
        directiveLines e tf td fileToProcess l (pre @ k # post)
        = Some (l # transform e tf td k fileToProcess (jsAnd m1 (jsAnd m2 (trim m2)))))"
proof -
  have u: "transform e tf td Unknown f v = [''/// Unknown transform ///ts:unknown:generated'']"
    for f v
    by (simp add: transform_def syntaxError_def signatureGenerated_def)
  have a: "directiveLines e tf td fileToProcess line transformers
        = Some [line, ''/// Unknown transform ///ts:unknown:generated'']"
    if "sigRest line = Some r" "stripPrefix ''import'' r = None" "stripPrefix ''export'' r = None"
       "stripPrefix ''ref'' r = None"
    using that by (simp add: transformers_def matchesKey_def u)
  from u a directiveLines_first [of pre l k m1 m2 e tf td fileToProcess post]
  show ?thesis by blast
qed

theorem unknown_kind_claims_the_rest_witness:
  "sigRest ''/// ts:module=x'' = Some ''module=x''
   \<and> directiveLines sampleEnv [] [] ''main.ts'' ''/// ts:module=x'' transformers
        = Some [''/// ts:module=x'', ''/// Unknown transform ///ts:unknown:generated'']
   \<and> matches Export ''///ts:export=a'' = Some (''='', ''a'')
   \<and> matches Unknown ''///ts:export=a'' = Some (''export=a'', [])
   \<and> directiveLines sampleEnv [] [] ''main.ts'' ''///ts:export=a'' ([Import] @ Export # [Reference, Unknown])
        = Some (''///ts:export=a'' # transform sampleEnv [] [] Export ''main.ts'' ''a'')"
proof -
  have s: "sigRest ''/// ts:module=x'' = Some ''module=x''" by code_simp
  have p: "stripPrefix ''import'' ''module=x'' = None \<and> stripPrefix ''export'' ''module=x'' = None
      \<and> stripPrefix ''ref'' ''module=x'' = None" by code_simp
  have m: "matches Export ''///ts:export=a'' = Some (''='', ''a'')" by code_simp
  have u: "matches Unknown ''///ts:export=a'' = Some (''export=a'', [])" by code_simp
  have i: "\<forall>k'\<in>set [Import]. matches k' ''///ts:export=a'' = None" by code_simp
  have j: "jsAnd ''='' (jsAnd ''a'' (trim ''a'')) = ''a''" by code_simp
  from unknown_kind_claims_the_rest [where line = "''/// ts:module=x''" and r = "''module=x''"
      and e = sampleEnv and tf = "[]" and td = "[]" and fileToProcess = "''main.ts''"
      and templateVars = "[]" and pre = "[Import]" and l = "''///ts:export=a''" and k = Export
      and ?m1.0 = "''=''" and ?m2.0 = "''a''" and post = "[Reference, Unknown]"]
    s p m u i j
  show ?thesis by simp
qed

theorem keyword_with_known_prefix_counterexample:
  "specKeyword ''///ts:imports=x'' = Some ''imports''
   \<and> ''imports'' \<noteq> ''import'' \<and> ''imports'' \<noteq> ''export'' \<and> ''imports'' \<noteq> ''ref''
   \<and> matches Import ''///ts:imports=x'' = Some ([], ''s=x'')
   \<and> directiveLines sampleEnv [] [] ''main.ts'' ''///ts:imports=x'' transformers
       = Some [''///ts:imports=x'',
          ''/// Invalid syntax for ts:import=<fileOrDirectoryName>[,<variableName>] ///ts:import:generated'']"
  by code_simp

section \<open>The resolver\<close>

lemma find_first: "\<forall>t\<in>set pre. \<not> P t \<Longrightarrow> P f \<Longrightarrow> find P (pre @ f # post) = Some f"
  by (induction pre) auto

lemma find_none: "\<forall>t\<in>set xs. \<not> P t \<Longrightarrow> find P xs = None"
  by (induction xs) auto

lemma getImports_no_files:
  "find (fileNameMatches name) tf = None \<Longrightarrow>
   getImports e cur name tf td g = getImports e cur name [] td g"
  by (simp add: getImports_def)

lemma getImports_file:
  "find (fileNameMatches name) tf = Some f \<Longrightarrow> f \<noteq> [] \<Longrightarrow>
   getImports e cur name tf td g = f # getImports e cur name [] td g"
  by (simp add: getImports_def Let_def split: option.splits)




text \<open>
  Claim C9.  The file-name scan contributes at most one path: the first entry of the
  target files whose base name equals the requested name in full, without \<open>.d.ts\<close> or
  without \<open>.ts\<close> (the entries being non-empty paths).  That path comes first, and what
  follows it is what the directory scan alone yields, that is, the result for the same
  request with no target files.
\<close>

theorem file_match_first_then_directory:
  assumes "[] \<notin> set targetFiles"
  shows "((\<forall>t\<in>set targetFiles. \<not> fileNameMatches name t) \<longrightarrow>
            getImports e cur name targetFiles td g = getImports e cur name [] td g)
    \<and> (targetFiles = pre @ f # post \<and> (\<forall>t\<in>set pre. \<not> fileNameMatches name t)
          \<and> fileNameMatches name f \<longrightarrow>
            getImports e cur name targetFiles td g = f # getImports e cur name [] td g)
    \<and> length (getImports e cur name targetFiles td g)
         \<le> Suc (length (getImports e cur name [] td g))
    \<and> getImports e cur name [] [] g = []"
proof -
  have a: "getImports e cur name targetFiles td g = getImports e cur name [] td g"
    if "\<forall>t\<in>set targetFiles. \<not> fileNameMatches name t"
    using that by (intro getImports_no_files find_none)
  have b: "getImports e cur name targetFiles td g = f # getImports e cur name [] td g"
    if "targetFiles = pre @ f # post" "\<forall>t\<in>set pre. \<not> fileNameMatches name t"
       "fileNameMatches name f"
  proof -
    from that have "find (fileNameMatches name) targetFiles = Some f"
      by (simp add: find_first)
    moreover from that(1) assms have "f \<noteq> []" by auto
    ultimately show ?thesis by (rule getImports_file)
  qed
  have c: "length (getImports e cur name targetFiles td g)
         \<le> Suc (length (getImports e cur name [] td g))"
    by (simp add: getImports_def Let_def split: option.splits)
  have d: "getImports e cur name [] [] g = []" by (simp add: getImports_def)
  from a b c d show ?thesis by blast
qed

theorem file_match_first_then_directory_witness:
  "getImports sampleEnv ''main.ts'' ''lib'' [''src/x.ts'', ''src/lib.d.ts'', ''other/lib.ts''] [''lib''] False
     = ''src/lib.d.ts'' # getImports sampleEnv ''main.ts'' ''lib'' [] [''lib''] False
   \<and> getImports sampleEnv ''main.ts'' ''lib'' [] [''lib''] False
     = [''lib/README'', ''lib/a.ts'', ''lib/b.ts'', ''lib/index.ts'']"
proof -
  have n: "[] \<notin> set [''src/x.ts'', ''src/lib.d.ts'', ''other/lib.ts'']" by simp
  have s: "[''src/x.ts'', ''src/lib.d.ts'', ''other/lib.ts''] = [''src/x.ts''] @ ''src/lib.d.ts'' # [''other/lib.ts'']"
    by simp
  have p: "\<forall>t\<in>set [''src/x.ts'']. \<not> fileNameMatches ''lib'' t" by code_simp
  have m: "fileNameMatches ''lib'' ''src/lib.d.ts''" by code_simp
  have d: "getImports sampleEnv ''main.ts'' ''lib'' [] [''lib''] False
     = [''lib/README'', ''lib/a.ts'', ''lib/b.ts'', ''lib/index.ts'']" by code_simp
  note T = file_match_first_then_directory [OF n, where name = "''lib''" and pre = "[''src/x.ts'']"
      and f = "''src/lib.d.ts''" and post = "[''other/lib.ts'']" and e = sampleEnv
      and cur = "''main.ts''" and td = "[''lib'']" and g = False]
  have g: "getImports sampleEnv ''main.ts'' ''lib'' [''src/x.ts'', ''src/lib.d.ts'', ''other/lib.ts''] [''lib''] False
     = ''src/lib.d.ts'' # getImports sampleEnv ''main.ts'' ''lib'' [] [''lib''] False"
    by (rule T [THEN conjunct2, THEN conjunct1, THEN mp]) (intro conjI s p m)
  show ?thesis by (rule conjI [OF g d])
qed








section \<open>The alias of a resolved path\<close>

text \<open>
  Claim C6, as amended.  The alias is the second parameter when it is given and not
  empty after trimming, and otherwise the base name of the path without a trailing
  \<open>.ts\<close> and then without a trailing \<open>.d\<close>; whichever of the two it is, a name whose
  lower-case form is \<open>index\<close> is replaced by the base name of the directory of the
  path.  For \<open>import\<close> and \<open>export\<close> each resolved path yields the template filled with
  that alias.
\<close>

theorem alias_of_resolved_path:
  "(v \<noteq> [] \<and> toLowerCase v \<noteq> ''index'' \<longrightarrow> aliasOf (Some v) p = v)
   \<and> (v \<noteq> [] \<and> toLowerCase v = ''index'' \<longrightarrow> aliasOf (Some v) p = basename (dirname p))
   \<and> (toLowerCase (basenameExt (basenameExt p ''.ts'') ''.d'') \<noteq> ''index'' \<longrightarrow>
        aliasOf None p = basenameExt (basenameExt p ''.ts'') ''.d''
        \<and> aliasOf (Some []) p = basenameExt (basenameExt p ''.ts'') ''.d'')
   \<and> (toLowerCase (basenameExt (basenameExt p ''.ts'') ''.d'') = ''index'' \<longrightarrow>
        aliasOf None p = basename (dirname p) \<and> aliasOf (Some []) p = basename (dirname p))
   \<and> ((k = Import \<or> k = Export) \<and> templateVars \<noteq> []
        \<and> splitOn (CHR '','') templateVars = v0 # vs
        \<and> getImports e sourceFile (trim v0) tf td (getIndexIfDir k) \<noteq> [] \<longrightarrow>
        transform e tf td k sourceFile templateVars
          = map (\<lambda>q. template e k
                   (aliasOf (case vs of [] \<Rightarrow> None | v1 # _ \<Rightarrow> Some (trim v1)) q)
                   (makeRelativePath e (dirname sourceFile) (stripTsExtension q) True)
                   @ '' '' @ signatureGenerated k)
              (getImports e sourceFile (trim v0) tf td (getIndexIfDir k)))"
proof -
  have t: "transform e tf td k sourceFile templateVars
          = map (\<lambda>q. template e k
                   (aliasOf (case vs of [] \<Rightarrow> None | v1 # _ \<Rightarrow> Some (trim v1)) q)
                   (makeRelativePath e (dirname sourceFile) (stripTsExtension q) True)
                   @ '' '' @ signatureGenerated k)
              (getImports e sourceFile (trim v0) tf td (getIndexIfDir k))"
    if "k = Import \<or> k = Export" "templateVars \<noteq> []"
       "splitOn (CHR '','') templateVars = v0 # vs"
       "getImports e sourceFile (trim v0) tf td (getIndexIfDir k) \<noteq> []"
    using that by (auto simp: transform_def importLine_def Let_def)
  have a: "(v \<noteq> [] \<and> toLowerCase v \<noteq> ''index'' \<longrightarrow> aliasOf (Some v) p = v)
   \<and> (v \<noteq> [] \<and> toLowerCase v = ''index'' \<longrightarrow> aliasOf (Some v) p = basename (dirname p))
   \<and> (toLowerCase (basenameExt (basenameExt p ''.ts'') ''.d'') \<noteq> ''index'' \<longrightarrow>
        aliasOf None p = basenameExt (basenameExt p ''.ts'') ''.d''
        \<and> aliasOf (Some []) p = basenameExt (basenameExt p ''.ts'') ''.d'')
   \<and> (toLowerCase (basenameExt (basenameExt p ''.ts'') ''.d'') = ''index'' \<longrightarrow>
        aliasOf None p = basename (dirname p) \<and> aliasOf (Some []) p = basename (dirname p))"
    by (simp add: aliasOf_def Let_def)
  from a t show ?thesis by blast
qed

theorem alias_of_resolved_path_witness:
  "aliasOf (Some ''util'') ''lib/foo.d.ts'' = ''util''
   \<and> aliasOf None ''lib/foo.d.ts'' = ''foo''
   \<and> aliasOf None ''lib/index.ts'' = ''lib''
   \<and> transform sampleEnv [''lib/foo.d.ts''] [''lib''] Export ''main.ts'' ''foo, util''
      = [''import util_file = require('' @ [CHR 0x27] @ ''./lib/foo'' @ [CHR 0x27]
         @ ''); ///ts:export:generated'' @ [CHR 0x0A]
         @ ''export var util = util_file; ///ts:export:generated'']"
proof -
  note T = alias_of_resolved_path [where v = "''util''" and p = "''lib/foo.d.ts''" and k = Export
      and templateVars = "''foo, util''" and ?v0.0 = "''foo''" and vs = "['' util'']"
      and e = sampleEnv and sourceFile = "''main.ts''" and tf = "[''lib/foo.d.ts'']"
      and td = "[''lib'']"]
  note U = alias_of_resolved_path [where p = "''lib/index.ts''"]
  have l: "''util'' \<noteq> [] \<and> toLowerCase ''util'' \<noteq> ''index''" by code_simp
  have b: "basenameExt (basenameExt ''lib/foo.d.ts'' ''.ts'') ''.d'' = ''foo''" by code_simp
  have lb: "toLowerCase ''foo'' \<noteq> ''index''" by code_simp
  have i: "toLowerCase (basenameExt (basenameExt ''lib/index.ts'' ''.ts'') ''.d'') = ''index''"
    by code_simp
  have d: "basename (dirname ''lib/index.ts'') = ''lib''" by code_simp
  have s: "splitOn (CHR '','') ''foo, util'' = ''foo'' # ['' util'']" by code_simp
  have g: "getImports sampleEnv ''main.ts'' (trim ''foo'') [''lib/foo.d.ts''] [''lib'']
             (getIndexIfDir Export) = [''lib/foo.d.ts'']" by code_simp
  have r: "map (\<lambda>q. template sampleEnv Export
                   (aliasOf (case ['' util''] of [] \<Rightarrow> None | v1 # _ \<Rightarrow> Some (trim v1)) q)
                   (makeRelativePath sampleEnv (dirname ''main.ts'') (stripTsExtension q) True)
                   @ '' '' @ signatureGenerated Export) [''lib/foo.d.ts'']
      = [''import util_file = require('' @ [CHR 0x27] @ ''./lib/foo'' @ [CHR 0x27]
         @ ''); ///ts:export:generated'' @ [CHR 0x0A]
         @ ''export var util = util_file; ///ts:export:generated'']" by code_simp
  have 1: "aliasOf (Some ''util'') ''lib/foo.d.ts'' = ''util''"
    by (rule T [THEN conjunct1, THEN mp]) (rule l)
  have 2: "aliasOf None ''lib/foo.d.ts'' = ''foo''"
    using T [THEN conjunct2, THEN conjunct2, THEN conjunct1] lb by (simp only: b) simp
  have 3: "aliasOf None ''lib/index.ts'' = ''lib''"
    using U [THEN conjunct2, THEN conjunct2, THEN conjunct2, THEN conjunct1, THEN mp, OF i]
    by (simp only: d)
  have 4: "transform sampleEnv [''lib/foo.d.ts''] [''lib''] Export ''main.ts'' ''foo, util''
      = [''import util_file = require('' @ [CHR 0x27] @ ''./lib/foo'' @ [CHR 0x27]
         @ ''); ///ts:export:generated'' @ [CHR 0x0A]
         @ ''export var util = util_file; ///ts:export:generated'']"
    using T [THEN conjunct2, THEN conjunct2, THEN conjunct2, THEN conjunct2] s
    by (simp only: g r) simp
  from 1 2 3 4 show ?thesis by (intro conjI)
qed

theorem explicit_alias_index_counterexample:
  "transform sampleEnv [''lib/foo.ts''] [''lib''] Import ''main.ts'' ''foo,index''
     = [''import lib = require('' @ [CHR 0x27] @ ''./lib/foo'' @ [CHR 0x27]
        @ ''); ///ts:import:generated'']
   \<and> aliasOf (Some ''index'') ''lib/foo.ts'' = ''lib''
   \<and> basenameExt (basenameExt ''lib/Index.ts'' ''.ts'') ''.d'' = ''Index''
   \<and> aliasOf None ''lib/Index.ts'' = ''lib''"
  by code_simp

section \<open>Writing a file back\<close>

text \<open>
  Claim C3, as amended.  A file is written exactly when its content holds a directive
  signature and the joined transformed content differs from the content; the text
  written is the transformed content.  So a transformation that leaves the content as
  it is writes nothing, and a content without any signature is never written.
\<close>

theorem write_iff_signature_and_change:
  "(processFile e tf td f contents = Some t \<longleftrightarrow>
      containsTransformSignature contents \<and> t = transformedContent e tf td f contents
      \<and> t \<noteq> contents)
   \<and> (transformedContent e tf td f contents = contents \<longrightarrow>
        processFile e tf td f contents = None)
   \<and> (\<not> containsTransformSignature contents \<longrightarrow> processFile e tf td f contents = None)"
  by (auto simp: processFile_def Let_def)

theorem write_iff_signature_and_change_witness:
  "processFile sampleEnv [''lib/a.ts''] [''lib''] ''main.ts'' ''///ts:ref=a''
     = Some (''///ts:ref=a'' @ [CHR 0x0A] @ ''/// <reference path='' @ [CHR 0x22] @ ''./lib/a.ts''
             @ [CHR 0x22] @ ''/> ///ts:ref:generated'')
   \<and> processFile sampleEnv [''lib/a.ts''] [''lib''] ''main.ts'' ''var x = 1;'' = None"
proof -
  note T = write_iff_signature_and_change [where e = sampleEnv and tf = "[''lib/a.ts'']"
      and td = "[''lib'']" and f = "''main.ts''"]
  have s: "containsTransformSignature ''///ts:ref=a''" by code_simp
  have v: "transformedContent sampleEnv [''lib/a.ts''] [''lib''] ''main.ts'' ''///ts:ref=a''
     = ''///ts:ref=a'' @ [CHR 0x0A] @ ''/// <reference path='' @ [CHR 0x22] @ ''./lib/a.ts''
             @ [CHR 0x22] @ ''/> ///ts:ref:generated''" by code_simp
  have d: "''///ts:ref=a'' @ [CHR 0x0A] @ ''/// <reference path='' @ [CHR 0x22] @ ''./lib/a.ts''
             @ [CHR 0x22] @ ''/> ///ts:ref:generated'' \<noteq> ''///ts:ref=a''" by simp
  have n: "\<not> containsTransformSignature ''var x = 1;''" by code_simp
  have 1: "processFile sampleEnv [''lib/a.ts''] [''lib''] ''main.ts'' ''///ts:ref=a''
     = Some (''///ts:ref=a'' @ [CHR 0x0A] @ ''/// <reference path='' @ [CHR 0x22] @ ''./lib/a.ts''
             @ [CHR 0x22] @ ''/> ///ts:ref:generated'')"
    by (rule T [THEN conjunct1, THEN iffD2]) (intro conjI s v [symmetric] d)
  have 2: "processFile sampleEnv [''lib/a.ts''] [''lib''] ''main.ts'' ''var x = 1;'' = None"
    by (rule T [THEN conjunct2, THEN conjunct2, THEN mp]) (rule n)
  from 1 2 show ?thesis by (intro conjI)
qed

theorem line_endings_without_signature_counterexample:
  "\<not> containsTransformSignature (''a'' @ [CHR 0x0D, CHR 0x0A] @ ''b'')
   \<and> transformedContent sampleEnv [] [] ''main.ts'' (''a'' @ [CHR 0x0D, CHR 0x0A] @ ''b'')
       = ''a'' @ [CHR 0x0A] @ ''b''
   \<and> ''a'' @ [CHR 0x0A] @ ''b'' \<noteq> ''a'' @ [CHR 0x0D, CHR 0x0A] @ ''b''
   \<and> processFile sampleEnv [] [] ''main.ts'' (''a'' @ [CHR 0x0D, CHR 0x0A] @ ''b'') = None"
  by code_simp

section \<open>The loop, line by line\<close>

lemma directiveLines_find:
  "directiveLines e tf td f line ts =
     (case find (\<lambda>t. matches t line \<noteq> None) ts of
        None \<Rightarrow> None
      | Some t \<Rightarrow>
          (case matches t line of
             None \<Rightarrow> None
           | Some (m1, m2) \<Rightarrow>
               Some (line # transform e tf td t f (jsAnd m1 (jsAnd m2 (trim m2))))))"
  by (induction ts) (auto split: option.splits)

lemma transformLoop_step:
  "transformLoop e tf td f (line # rest) out
   = transformLoop e tf td f rest (out @ lineOutputSpec e tf td f line)"
  by (auto simp: lineOutputSpec_def directiveLines_find list_ex_iff split: option.splits)

lemma transformLoop_concat:
  "transformLoop e tf td f lines out = out @ concat (map (lineOutputSpec e tf td f) lines)"
proof (induction lines arbitrary: out)
  case Nil
  show ?case by simp
next
  case (Cons line rest)
  show ?case by (simp only: transformLoop_step Cons.IH) simp
qed

lemma strContains_self: "strContains (n @ b) n"
proof (cases "n @ b")
  case Nil
  then show ?thesis by simp
next
  case (Cons c cs)
  then have "stripPrefix n (c # cs) = Some b" by (simp add: stripPrefix_Some)
  then have "strContains (c # cs) n" by simp
  with Cons show ?thesis by simp
qed

lemma strContains_ConsI: "strContains b n \<Longrightarrow> strContains (c # b) n"
  by simp

lemma strContains_appendI: "strContains b n \<Longrightarrow> strContains (a @ b) n"
  by (induction a) (auto simp del: strContains.simps intro: strContains_ConsI)

lemma isGenerated_suffix: "isGenerated k (a @ signatureGenerated k)"
  unfolding isGenerated_def
  using strContains_appendI [OF strContains_self [of "signatureGenerated k" "[]"]] by simp

lemma isGenerated_appendI: "isGenerated k b \<Longrightarrow> isGenerated k (a @ b)"
  unfolding isGenerated_def by (rule strContains_appendI)

lemma isGenerated_ConsI: "isGenerated k b \<Longrightarrow> isGenerated k (c # b)"
  unfolding isGenerated_def by (rule strContains_ConsI)

lemma isGenerated_sig: "isGenerated k (signatureGenerated k)"
  using isGenerated_suffix [of k "[]"] by simp

lemmas isGenerated_intros =
  isGenerated_sig isGenerated_appendI isGenerated_ConsI

lemma syntaxError_generated: "isGenerated k (syntaxError k)"
  unfolding syntaxError_def by (auto intro!: isGenerated_intros)

lemma importLine_generated: "isGenerated k (importLine e k d rv p)"
  unfolding importLine_def Let_def by (intro isGenerated_intros)

lemma transform_generated:
  "x \<in> set (transform e tf td k f v) \<Longrightarrow> isGenerated k x"
  unfolding transform_def Let_def
  by (auto simp: syntaxError_generated importLine_generated
      intro!: isGenerated_intros split: if_splits list.splits)

lemma find_in_set: "find P xs = Some x \<Longrightarrow> x \<in> set xs \<and> P x"
  by (induction xs) (auto split: if_splits)

lemma lineOutputSpec_generated:
  "(\<exists>t\<in>set transformers. isGenerated t line) \<Longrightarrow> lineOutputSpec e tf td f line = []"
  by (simp add: lineOutputSpec_def)

lemma lineOutputSpec_kept:
  assumes "\<not> (\<exists>t\<in>set transformers. isGenerated t line)"
  shows "\<exists>block. lineOutputSpec e tf td f line = line # block
     \<and> (\<forall>x\<in>set block. \<exists>t\<in>set transformers. isGenerated t x)"
proof (cases "find (\<lambda>t. matches t line \<noteq> None) transformers")
  case None
  with assms show ?thesis by (simp add: lineOutputSpec_def)
next
  case (Some t)
  from find_in_set [OF Some] obtain m1 m2
    where t: "t \<in> set transformers" and m: "matches t line = Some (m1, m2)" by auto
  from assms Some m
  have "lineOutputSpec e tf td f line
      = line # transform e tf td t f (jsAnd m1 (jsAnd m2 (trim m2)))"
    by (simp add: lineOutputSpec_def)
  with t transform_generated show ?thesis by blast
qed

lemma filter_lineOutputSpec:
  "filter (\<lambda>l. \<not> (\<exists>t\<in>set transformers. isGenerated t l)) (lineOutputSpec e tf td f line)
   = filter (\<lambda>l. \<not> (\<exists>t\<in>set transformers. isGenerated t l)) [line]"
proof (cases "\<exists>t\<in>set transformers. isGenerated t line")
  case True
  then show ?thesis by (simp add: lineOutputSpec_generated)
next
  case False
  from lineOutputSpec_kept [OF False, of e tf td f] obtain block
    where b: "lineOutputSpec e tf td f line = line # block"
      and g: "\<forall>x\<in>set block. \<exists>t\<in>set transformers. isGenerated t x" by blast
  from g have "filter (\<lambda>l. \<not> (\<exists>t\<in>set transformers. isGenerated t l)) block = []"
    by (simp add: filter_empty_conv)
  with b False show ?thesis by simp
qed

text \<open>
  Claim C2.  The output of the loop is the concatenation, in the order of the input
  lines, of what each line yields: nothing for a line with a generated marker, the line
  followed by the expansion of the first kind that matches it for a directive line, and
  the line alone otherwise.  Every expanded line carries a generated marker, so taking
  the lines with a marker away from the input and from the output leaves the same list:
  the other lines are unchanged and in their original order.
\<close>

theorem output_keeps_line_order:
  "transformLoop e tf td f lines [] = concat (map (lineOutputSpec e tf td f) lines)
   \<and> filter (\<lambda>l. \<not> (\<exists>t\<in>set transformers. isGenerated t l)) (transformLoop e tf td f lines [])
       = filter (\<lambda>l. \<not> (\<exists>t\<in>set transformers. isGenerated t l)) lines
   \<and> transformedContent e tf td f contents
       = joinWith (EOL e) (concat (map (lineOutputSpec e tf td f) (splitLines contents)))"
proof -
  have a: "transformLoop e tf td f ls [] = concat (map (lineOutputSpec e tf td f) ls)" for ls
    by (simp add: transformLoop_concat)
  have b: "filter (\<lambda>l. \<not> (\<exists>t\<in>set transformers. isGenerated t l))
             (concat (map (lineOutputSpec e tf td f) lines))
       = filter (\<lambda>l. \<not> (\<exists>t\<in>set transformers. isGenerated t l)) lines"
  proof (induction lines)
    case Nil
    show ?case by simp
  next
    case (Cons l ls)
    have "filter (\<lambda>l. \<not> (\<exists>t\<in>set transformers. isGenerated t l))
             (concat (map (lineOutputSpec e tf td f) (l # ls)))
        = filter (\<lambda>l. \<not> (\<exists>t\<in>set transformers. isGenerated t l)) (lineOutputSpec e tf td f l)
          @ filter (\<lambda>l. \<not> (\<exists>t\<in>set transformers. isGenerated t l))
             (concat (map (lineOutputSpec e tf td f) ls))"
      by simp
    also have "\<dots> = filter (\<lambda>l. \<not> (\<exists>t\<in>set transformers. isGenerated t l)) [l]
          @ filter (\<lambda>l. \<not> (\<exists>t\<in>set transformers. isGenerated t l)) ls"
      by (simp only: filter_lineOutputSpec Cons.IH)
    also have "\<dots> = filter (\<lambda>l. \<not> (\<exists>t\<in>set transformers. isGenerated t l)) (l # ls)"
      by simp
    finally show ?case .
  qed
  show ?thesis by (simp only: a b transformedContent_def)
qed

theorem output_keeps_line_order_witness:
  "transformLoop sampleEnv [''lib/a.ts''] [''lib''] ''main.ts''
     [''var x;'', ''///ts:ref=a'', ''stale ///ts:ref:generated'', ''var y;''] []
   = [''var x;'', ''///ts:ref=a'',
      ''/// <reference path='' @ [CHR 0x22] @ ''./lib/a.ts'' @ [CHR 0x22] @ ''/> ///ts:ref:generated'',
      ''var y;'']
   \<and> filter (\<lambda>l. \<not> (\<exists>t\<in>set transformers. isGenerated t l))
       [''var x;'', ''///ts:ref=a'', ''stale ///ts:ref:generated'', ''var y;'']
     = [''var x;'', ''///ts:ref=a'', ''var y;'']"
proof -
  note T = output_keeps_line_order [where e = sampleEnv and tf = "[''lib/a.ts'']"
      and td = "[''lib'']" and f = "''main.ts''"
      and lines = "[''var x;'', ''///ts:ref=a'', ''stale ///ts:ref:generated'', ''var y;'']"]
  have v: "concat (map (lineOutputSpec sampleEnv [''lib/a.ts''] [''lib''] ''main.ts'')
       [''var x;'', ''///ts:ref=a'', ''stale ///ts:ref:generated'', ''var y;''])
   = [''var x;'', ''///ts:ref=a'',
      ''/// <reference path='' @ [CHR 0x22] @ ''./lib/a.ts'' @ [CHR 0x22] @ ''/> ///ts:ref:generated'',
      ''var y;'']" by code_simp
  have w: "filter (\<lambda>l. \<not> (\<exists>t\<in>set transformers. isGenerated t l))
       [''var x;'', ''///ts:ref=a'', ''stale ///ts:ref:generated'', ''var y;'']
     = [''var x;'', ''///ts:ref=a'', ''var y;'']" by code_simp
  have a: "transformLoop sampleEnv [''lib/a.ts''] [''lib''] ''main.ts''
     [''var x;'', ''///ts:ref=a'', ''stale ///ts:ref:generated'', ''var y;''] []
   = [''var x;'', ''///ts:ref=a'',
      ''/// <reference path='' @ [CHR 0x22] @ ''./lib/a.ts'' @ [CHR 0x22] @ ''/> ///ts:ref:generated'',
      ''var y;'']"
    using T [THEN conjunct1] by (simp only: v)
  show ?thesis by (rule conjI [OF a w])
qed

section \<open>Splitting and joining lines\<close>

lemma noLT_Nil [simp]: "noLT []"
  by (simp add: noLT_def)

lemma noLT_Cons [simp]: "noLT (c # s) \<longleftrightarrow> \<not> isLineTerminator c \<and> noLT s"
  by (simp add: noLT_def)

lemma noLT_append [simp]: "noLT (a @ b) \<longleftrightarrow> noLT a \<and> noLT b"
  by (simp add: noLT_def)

lemma noLT_set: "noLT s \<longleftrightarrow> (\<forall>c\<in>set s. \<not> isLineTerminator c)"
  by (simp add: noLT_def list_all_iff)

lemma noLT_subset: "set a \<subseteq> set b \<Longrightarrow> noLT b \<Longrightarrow> noLT a"
  by (auto simp: noLT_set)

lemma noLT_last: "noLT s \<Longrightarrow> s = [] \<or> last s \<noteq> CHR 0x0D"
  by (cases s rule: rev_cases) (auto simp: isLineTerminator_def)

lemma splitLines_nonempty [simp]: "splitLines s \<noteq> []"
  by (induction s rule: splitLines.induct) (auto split: list.splits)

lemma splitLines_noLT: "noLT s \<Longrightarrow> splitLines s = [s]"
  by (induction s) (auto simp: isLineTerminator_def)

lemma splitLines_CR_LF: "splitLines (CHR 0x0D # CHR 0x0A # ds) = [] # splitLines ds"
  by simp

lemma splitLines_CR_other:
  "d \<noteq> CHR 0x0A \<Longrightarrow> splitLines (CHR 0x0D # d # ds) = [] # splitLines (d # ds)"
  by simp

lemma splitLines_CR_end: "splitLines [CHR 0x0D] = [[], []]"
  by simp

lemma splitLines_LF: "splitLines (CHR 0x0A # cs) = [] # splitLines cs"
  by simp

lemma splitLines_plain:
  "c \<noteq> CHR 0x0D \<Longrightarrow> c \<noteq> CHR 0x0A \<Longrightarrow>
   splitLines (c # cs) = (c # hd (splitLines cs)) # tl (splitLines cs)"
  by (cases "splitLines cs") simp_all

lemmas splitLines_eqs =
  splitLines.simps(1) splitLines_CR_LF splitLines_CR_other splitLines_CR_end splitLines_LF
  splitLines_plain

lemma splitLines_lines_noLT: "x \<in> set (splitLines s) \<Longrightarrow> noLT x"
proof (induction s arbitrary: x rule: induct_list012)
  case 1
  then show ?case by simp
next
  case (2 c)
  consider "c = CHR 0x0D" | "c = CHR 0x0A" | "c \<noteq> CHR 0x0D" "c \<noteq> CHR 0x0A" by blast
  then show ?case
  proof cases
    case 1
    with 2 show ?thesis by (auto simp only: splitLines_eqs noLT_Nil set_simps)
  next
    case 2
    with "2.prems" show ?thesis by (auto simp only: splitLines_eqs noLT_Nil set_simps)
  next
    case 3
    with "2.prems" show ?thesis
      by (simp del: splitLines.simps add: splitLines_eqs isLineTerminator_def)
  qed
next
  case (3 c d ds)
  consider "c = CHR 0x0D" "d = CHR 0x0A" | "c = CHR 0x0D" "d \<noteq> CHR 0x0A"
    | "c = CHR 0x0A" | "c \<noteq> CHR 0x0D" "c \<noteq> CHR 0x0A" by blast
  then show ?case
  proof cases
    case 1
    with "3.prems" "3.IH"(1) show ?thesis
      by (auto simp del: splitLines.simps simp add: splitLines_eqs)
  next
    case 2
    with "3.prems" "3.IH"(2) show ?thesis
      by (auto simp del: splitLines.simps simp add: splitLines_eqs)
  next
    case 3
    with "3.prems" "3.IH"(2) show ?thesis
      by (auto simp del: splitLines.simps simp add: splitLines_eqs)
  next
    case 4
    have ne: "splitLines (d # ds) \<noteq> []" by (rule splitLines_nonempty)
    from 4 "3.prems" have "x = c # hd (splitLines (d # ds)) \<or> x \<in> set (tl (splitLines (d # ds)))"
      by (simp del: splitLines.simps add: splitLines_eqs)
    moreover have "noLT (hd (splitLines (d # ds)))"
      using ne by (intro "3.IH"(2)) (simp del: splitLines.simps)
    moreover have "y \<in> set (tl (splitLines (d # ds))) \<Longrightarrow> noLT y" for y
      using ne list.set_sel(2) [of "splitLines (d # ds)" y] by (intro "3.IH"(2)) blast
    ultimately show ?thesis using 4 by (auto simp: isLineTerminator_def)
  qed
qed

lemma last_CR_tail: "c # d # ds = [] \<or> last (c # d # ds) \<noteq> CHR 0x0D \<Longrightarrow>
   (d # ds = [] \<or> last (d # ds) \<noteq> CHR 0x0D) \<and> (ds = [] \<or> last ds \<noteq> CHR 0x0D)"
  by (auto split: if_splits)

lemma splitLines_append_LF:
  "a = [] \<or> last a \<noteq> CHR 0x0D \<Longrightarrow>
   splitLines (a @ CHR 0x0A # r) = splitLines a @ splitLines r"
proof (induction a rule: induct_list012)
  case 1
  show ?case by simp
next
  case (2 c)
  then have c: "c \<noteq> CHR 0x0D" by simp
  show ?case
  proof (cases "c = CHR 0x0A")
    case True
    then show ?thesis by simp
  next
    case False
    with c show ?thesis by (simp del: splitLines.simps add: splitLines_eqs)
  qed
next
  case (3 c d ds)
  from last_CR_tail [OF "3.prems"]
  have t1: "d # ds = [] \<or> last (d # ds) \<noteq> CHR 0x0D" and t2: "ds = [] \<or> last ds \<noteq> CHR 0x0D"
    by blast+
  note ih1 = "3.IH"(1) [OF t2] and ih2 = "3.IH"(2) [OF t1]
  consider "c = CHR 0x0D" "d = CHR 0x0A" | "c = CHR 0x0D" "d \<noteq> CHR 0x0A"
    | "c = CHR 0x0A" | "c \<noteq> CHR 0x0D" "c \<noteq> CHR 0x0A" by blast
  then show ?case
  proof cases
    case 1
    with ih1 show ?thesis by (simp del: splitLines.simps add: splitLines_eqs)
  next
    case 2
    with ih2 show ?thesis by (simp del: splitLines.simps add: splitLines_eqs)
  next
    case 3
    with ih2 show ?thesis by (simp del: splitLines.simps add: splitLines_eqs)
  next
    case 4
    have ne: "splitLines (d # ds) \<noteq> []" by (rule splitLines_nonempty)
    have "splitLines ((c # d # ds) @ CHR 0x0A # r)
        = (c # hd (splitLines ((d # ds) @ CHR 0x0A # r))) # tl (splitLines ((d # ds) @ CHR 0x0A # r))"
      using 4 splitLines_plain [of c "(d # ds) @ CHR 0x0A # r"] by simp
    also have "\<dots> = (c # hd (splitLines (d # ds))) # tl (splitLines (d # ds)) @ splitLines r"
      using hd_append2 [OF ne, of "splitLines r"] tl_append2 [OF ne, of "splitLines r"]
      by (simp only: ih2)
    also have "\<dots> = splitLines (c # d # ds) @ splitLines r"
      using 4 splitLines_plain [of c "d # ds"] by simp
    finally show ?thesis .
  qed
qed

lemma splitLines_append_CRLF:
  "splitLines (a @ CHR 0x0D # CHR 0x0A # r) = splitLines a @ splitLines r"
proof (induction a rule: induct_list012)
  case 1
  show ?case by simp
next
  case (2 c)
  consider "c = CHR 0x0D" | "c = CHR 0x0A" | "c \<noteq> CHR 0x0D" "c \<noteq> CHR 0x0A" by blast
  then show ?case
  proof cases
    case 1
    then show ?thesis by simp
  next
    case 2
    then show ?thesis by simp
  next
    case 3
    then show ?thesis by (simp del: splitLines.simps add: splitLines_eqs)
  qed
next
  case (3 c d ds)
  note ih1 = "3.IH"(1) and ih2 = "3.IH"(2)
  consider "c = CHR 0x0D" "d = CHR 0x0A" | "c = CHR 0x0D" "d \<noteq> CHR 0x0A"
    | "c = CHR 0x0A" | "c \<noteq> CHR 0x0D" "c \<noteq> CHR 0x0A" by blast
  then show ?case
  proof cases
    case 1
    with ih1 show ?thesis by (simp del: splitLines.simps add: splitLines_eqs)
  next
    case 2
    with ih2 show ?thesis by (simp del: splitLines.simps add: splitLines_eqs)
  next
    case 3
    with ih2 show ?thesis by (simp del: splitLines.simps add: splitLines_eqs)
  next
    case 4
    have ne: "splitLines (d # ds) \<noteq> []" by (rule splitLines_nonempty)
    have "splitLines ((c # d # ds) @ CHR 0x0D # CHR 0x0A # r)
        = (c # hd (splitLines ((d # ds) @ CHR 0x0D # CHR 0x0A # r)))
          # tl (splitLines ((d # ds) @ CHR 0x0D # CHR 0x0A # r))"
      using 4 splitLines_plain [of c "(d # ds) @ CHR 0x0D # CHR 0x0A # r"] by simp
    also have "\<dots> = (c # hd (splitLines (d # ds))) # tl (splitLines (d # ds)) @ splitLines r"
      using hd_append2 [OF ne, of "splitLines r"] tl_append2 [OF ne, of "splitLines r"]
      by (simp only: ih2)
    also have "\<dots> = splitLines (c # d # ds) @ splitLines r"
      using 4 splitLines_plain [of c "d # ds"] by simp
    finally show ?thesis .
  qed
qed

lemma splitLines_append_EOL:
  assumes "eol = [CHR 0x0A] \<or> eol = [CHR 0x0D, CHR 0x0A]"
    and "a = [] \<or> last a \<noteq> CHR 0x0D"
  shows "splitLines (a @ eol @ r) = splitLines a @ splitLines r"
  using assms splitLines_append_LF [of a r] splitLines_append_CRLF [of a r] by auto

lemma splitLines_joinWith:
  "eol = [CHR 0x0A] \<or> eol = [CHR 0x0D, CHR 0x0A] \<Longrightarrow> xs \<noteq> [] \<Longrightarrow>
   \<forall>x\<in>set xs. x = [] \<or> last x \<noteq> CHR 0x0D \<Longrightarrow>
   splitLines (joinWith eol xs) = concat (map splitLines xs)"
proof (induction eol xs rule: joinWith.induct)
  case (1 sep)
  then show ?case by simp
next
  case (2 sep l)
  then show ?case by simp
next
  case (3 sep l m ls)
  have h: "splitLines (l @ sep @ joinWith sep (m # ls))
      = splitLines l @ splitLines (joinWith sep (m # ls))"
    using "3.prems" by (intro splitLines_append_EOL) auto
  have ih: "splitLines (joinWith sep (m # ls)) = concat (map splitLines (m # ls))"
    using "3.prems" by (intro "3.IH") auto
  have "splitLines (joinWith sep (l # m # ls)) = splitLines l @ concat (map splitLines (m # ls))"
    by (simp only: joinWith.simps h ih)
  then show ?case by (simp del: splitLines.simps joinWith.simps)
qed

section \<open>Texts without line terminators\<close>

lemma set_pathCore: "set (pathCore p) \<subseteq> set p"
proof -
  have "set (if isAbsolute p then tl p else p) \<subseteq> set p"
    by (cases p) auto
  moreover have "set (pathCore p) \<subseteq> set (if isAbsolute p then tl p else p)"
    unfolding pathCore_def by (auto dest: set_dropWhileD)
  ultimately show ?thesis by blast
qed

lemma set_lastPart: "set (lastPart p) \<subseteq> set p"
  using set_pathCore [of p] unfolding lastPart_def by (auto dest!: set_takeWhileD)

lemma set_dirPart: "set (dirPart p) \<subseteq> set p"
  using set_pathCore [of p] unfolding dirPart_def by (auto dest!: set_dropWhileD)

lemma noLT_basename: "noLT p \<Longrightarrow> noLT (basename p)"
  unfolding basename_def by (rule noLT_subset [OF set_lastPart])

lemma noLT_basenameExt: "noLT p \<Longrightarrow> noLT (basenameExt p ext)"
proof -
  assume p: "noLT p"
  have "set (basenameExt p ext) \<subseteq> set (lastPart p)"
    unfolding basenameExt_def Let_def by (auto dest: in_set_takeD)
  with set_lastPart [of p] have "set (basenameExt p ext) \<subseteq> set p" by blast
  then show ?thesis using p by (rule noLT_subset)
qed

lemma noLT_dirname: "noLT p \<Longrightarrow> noLT (dirname p)"
proof -
  assume p: "noLT p"
  have "set (butlast (dirPart p)) \<subseteq> set p"
    using set_dirPart [of p] by (auto dest: in_set_butlastD)
  then have "noLT (butlast (dirPart p))" using p by (rule noLT_subset)
  then show ?thesis
    unfolding dirname_def Let_def by (simp add: isLineTerminator_def)
qed

lemma noLT_stripTsExtension: "noLT p \<Longrightarrow> noLT (stripTsExtension p)"
proof -
  assume p: "noLT p"
  have "set (stripTsExtension p) \<subseteq> set p"
    unfolding stripTsExtension_def by (auto dest: in_set_takeD)
  then show ?thesis using p by (rule noLT_subset)
qed

lemma noLT_trim: "noLT s \<Longrightarrow> noLT (trim s)"
proof -
  assume s: "noLT s"
  have "set (trim s) \<subseteq> set s"
    unfolding trim_def by (auto dest!: set_dropWhileD)
  then show ?thesis using s by (rule noLT_subset)
qed

lemma noLT_dotStar: "noLT (dotStar s)"
  unfolding dotStar_def noLT_set by (auto dest: set_takeWhileD)

lemma splitOn_nonempty [simp]: "splitOn d s \<noteq> []"
  by (induction s) (auto split: list.splits)

lemma noLT_splitOn: "noLT s \<Longrightarrow> x \<in> set (splitOn d s) \<Longrightarrow> noLT x"
  by (induction s arbitrary: x) (auto split: list.splits if_splits)

lemma noLT_joinWith:
  "noLT sep \<Longrightarrow> \<forall>x\<in>set xs. noLT x \<Longrightarrow> noLT (joinWith sep xs)"
  by (induction sep xs rule: joinWith.induct) auto

lemma set_normStep: "set (snd (normStep seg st)) \<subseteq> insert seg (set (snd st))"
  by (cases st) (auto simp: normStep_def)

lemma set_foldr_normStep: "set (snd (foldr normStep parts (0, []))) \<subseteq> set parts"
proof (induction parts)
  case Nil
  show ?case by simp
next
  case (Cons p ps)
  from set_normStep [of p "foldr normStep ps (0, [])"] Cons show ?case by auto
qed

lemma noLT_normalizeArray:
  assumes "\<forall>x\<in>set parts. noLT x" and "x \<in> set (normalizeArray parts b)"
  shows "noLT x"
proof -
  obtain up acc where f: "foldr normStep parts (0, []) = (up, acc)" by (cases "foldr normStep parts (0, [])")
  with set_foldr_normStep [of parts] have "set acc \<subseteq> set parts" by simp
  with assms(2) f have "x \<in> set parts \<or> x = ''..''"
    by (auto simp: normalizeArray_def split: if_splits)
  with assms(1) show ?thesis by (auto simp: isLineTerminator_def)
qed

lemma noLT_pathParts: "noLT p \<Longrightarrow> x \<in> set (pathParts p) \<Longrightarrow> noLT x"
  unfolding pathParts_def by (auto dest: noLT_splitOn)

lemma noLT_normalize: "noLT p \<Longrightarrow> noLT (normalize p)"
proof -
  assume p: "noLT p"
  have j: "noLT (joinWith ''/'' (normalizeArray (pathParts p) b))" for b
    using p by (intro noLT_joinWith) (auto simp: isLineTerminator_def
        dest: noLT_normalizeArray [rotated] noLT_pathParts)
  have s: "noLT ''/''" and d: "noLT ''.''" by (simp_all add: isLineTerminator_def)
  show ?thesis
    unfolding normalize_def Let_def
    using j [of True] j [of False] s d by (auto simp del: noLT_Cons split: if_splits)
qed

lemma noLT_pathJoin: "noLT a \<Longrightarrow> noLT b \<Longrightarrow> noLT (pathJoin a b)"
  unfolding pathJoin_def
  by (intro noLT_normalize noLT_joinWith) (auto simp: isLineTerminator_def)

lemma all_kinds: "k \<in> set transformers"
  by (cases k) (simp_all add: transformers_def)

lemma noLT_key: "noLT (key k)"
  by (cases k) (simp_all add: isLineTerminator_def)

lemma noLT_variableSyntax: "noLT (variableSyntax k)"
  by (cases k) (simp_all add: isLineTerminator_def)

lemma noLT_signatureGenerated: "noLT (signatureGenerated k)"
  by (simp add: signatureGenerated_def noLT_key isLineTerminator_def)

lemma noLT_syntaxError: "noLT (syntaxError k)"
  by (simp add: syntaxError_def noLT_key noLT_variableSyntax noLT_signatureGenerated
      isLineTerminator_def)

lemma isGenerated_nonempty: "isGenerated k x \<Longrightarrow> x \<noteq> []"
  by (auto simp: isGenerated_def signatureGenerated_def)

lemma regenerable_noLT: "noLT x \<Longrightarrow> isGenerated k x \<Longrightarrow> regenerable x"
  using all_kinds [of k] noLT_last [of x]
  by (auto simp: regenerable_def splitLines_noLT simp del: splitLines.simps)

lemma regenerable_two:
  assumes "eol = [CHR 0x0A] \<or> eol = [CHR 0x0D, CHR 0x0A]"
    and "noLT a" and "noLT b" and "isGenerated k a" and "isGenerated k b"
  shows "regenerable (a @ eol @ b)"
proof -
  from assms(2) have la: "a = [] \<or> last a \<noteq> CHR 0x0D" by (rule noLT_last)
  have s: "splitLines (a @ eol @ b) = [a, b]"
    using splitLines_append_EOL [OF assms(1) la, of b] assms(2,3)
    by (simp add: splitLines_noLT del: splitLines.simps)
  from assms(5) have nb: "b \<noteq> []" by (rule isGenerated_nonempty)
  with noLT_last [OF assms(3)] have "last (a @ eol @ b) \<noteq> CHR 0x0D" by simp
  with s assms(4,5) all_kinds [of k] show ?thesis
    by (auto simp: regenerable_def simp del: splitLines.simps)
qed

lemma noLT_aliasOf:
  assumes "noLT p" and "\<And>v. rv = Some v \<Longrightarrow> noLT v"
  shows "noLT (aliasOf rv p)"
  using assms noLT_basenameExt [OF noLT_basenameExt [OF assms(1), of "''.ts''"], of "''.d''"]
    noLT_basename [OF noLT_dirname [OF assms(1)]]
  by (auto simp: aliasOf_def Let_def split: option.splits)

lemma getImports_noLT:
  assumes "\<forall>p\<in>set tf. noLT p" and "\<forall>p\<in>set td. noLT p"
    and "\<forall>d. \<forall>p\<in>set (dirFiles e d). noLT p"
    and "p \<in> set (getImports e cur name tf td g)"
  shows "noLT p"
proof -
  have i: "noLT ''index.ts''" by (simp add: isLineTerminator_def)
  have d: "noLT (pathJoin dir ''index.ts'')" if "find P td = Some dir" for P dir
    using find_in_set [OF that] assms(2) i by (auto intro: noLT_pathJoin)
  have f: "noLT t" if "find P tf = Some t" for P t
    using find_in_set [OF that] assms(1) by auto
  have l: "noLT q" if "q \<in> set (getFiles e dir ex)" for q dir ex
    using that assms(3) by (auto simp: getFiles_def)
  have d': "noLT (pathJoin dir ''index.ts'')" if "Some dir = find P td" for P dir
    using d [OF that [symmetric]] .
  have f': "noLT t" if "Some t = find P tf" for P t
    using f [OF that [symmetric]] .
  from assms(4) show ?thesis
    by (auto simp: getImports_def Let_def split: option.splits if_splits dest: d f d' f' l)
qed

lemma importLine_regenerable:
  assumes "EOL e = [CHR 0x0A] \<or> EOL e = [CHR 0x0D, CHR 0x0A]"
    and "noLT d" and "noLT p" and "\<And>v. rv = Some v \<Longrightarrow> noLT v"
    and "\<forall>d p b. noLT d \<longrightarrow> noLT p \<longrightarrow> noLT (makeRelativePath e d p b)"
    and "k \<noteq> Unknown"
  shows "regenerable (importLine e k d rv p)"
proof -
  have al: "noLT (aliasOf rv p)" using assms(3,4) by (rule noLT_aliasOf)
  have pa: "noLT (makeRelativePath e d (if removeExtensionFromFilePath k
      then stripTsExtension p else p) True)"
    using assms(2,3,5) noLT_stripTsExtension [OF assms(3)] by simp
  note sg = noLT_signatureGenerated
  show ?thesis
  proof (cases k)
    case Import
    have "noLT (importLine e k d rv p)"
      using al pa sg [of k] Import by (simp add: importLine_def Let_def isLineTerminator_def)
    then show ?thesis using importLine_generated by (rule regenerable_noLT)
  next
    case Reference
    have "noLT (importLine e k d rv p)"
      using al pa sg [of k] Reference by (simp add: importLine_def Let_def isLineTerminator_def)
    then show ?thesis using importLine_generated by (rule regenerable_noLT)
  next
    case Export
    define a where "a = ''import '' @ aliasOf rv p @ ''_file = require('' @ [CHR 0x27]
      @ makeRelativePath e d (stripTsExtension p) True @ [CHR 0x27] @ ''); ''
      @ signatureGenerated Export"
    define b where "b = ''export var '' @ aliasOf rv p @ '' = '' @ aliasOf rv p @ ''_file;''
      @ '' '' @ signatureGenerated Export"
    have eq: "importLine e k d rv p = a @ EOL e @ b"
      using Export by (simp add: importLine_def Let_def a_def b_def)
    have na: "noLT a" using al pa sg [of Export] Export
      by (simp add: a_def isLineTerminator_def)
    have nb: "noLT b" using al sg [of Export]
      by (simp add: b_def isLineTerminator_def)
    have ga: "isGenerated Export a" unfolding a_def by (intro isGenerated_intros)
    have gb: "isGenerated Export b" unfolding b_def by (intro isGenerated_intros)
    show ?thesis unfolding eq by (rule regenerable_two [OF assms(1) na nb ga gb])
  next
    case Unknown
    with assms(6) show ?thesis by simp
  qed
qed

section \<open>Running the loop on its own output\<close>

lemma transform_regenerable:
  assumes eol: "EOL e = [CHR 0x0A] \<or> EOL e = [CHR 0x0D, CHR 0x0A]"
    and tf: "\<forall>p\<in>set tf. noLT p" and td: "\<forall>p\<in>set td. noLT p"
    and df: "\<forall>d. \<forall>p\<in>set (dirFiles e d). noLT p"
    and mk: "\<forall>d p b. noLT d \<longrightarrow> noLT p \<longrightarrow> noLT (makeRelativePath e d p b)"
    and f: "noLT f" and v: "noLT v"
    and x: "x \<in> set (transform e tf td k f v)"
  shows "regenerable x"
proof -
  have se: "regenerable (syntaxError k)"
    using noLT_syntaxError syntaxError_generated by (rule regenerable_noLT)
  show ?thesis
  proof (cases "k = Unknown \<or> v = []")
    case True
    have "transform e tf td k f v = [syntaxError k]"
    proof (cases "k = Unknown")
      case True
      then show ?thesis by (simp add: transform_def)
    next
      case False
      with \<open>k = Unknown \<or> v = []\<close> have "v = []" by simp
      with False show ?thesis by (simp add: transform_empty)
    qed
    with x se show ?thesis by simp
  next
    case False
    then have k: "k \<noteq> Unknown" and vn: "v \<noteq> []" by auto
    obtain v0 vs where s: "splitOn (CHR '','') v = v0 # vs"
      by (cases "splitOn (CHR '','') v") simp_all
    have n0: "noLT (trim v0)"
      using noLT_splitOn [OF v, of v0 "CHR '',''"] s by (auto intro: noLT_trim)
    define rv where "rv = (case vs of [] \<Rightarrow> None | v1 # _ \<Rightarrow> Some (trim v1))"
    have nrv: "noLT w" if "rv = Some w" for w
    proof (cases vs)
      case Nil
      with that show ?thesis by (simp add: rv_def)
    next
      case (Cons v1 rest)
      with s have "v1 \<in> set (splitOn (CHR '','') v)" by simp
      from noLT_splitOn [OF v this] Cons that show ?thesis
        by (auto simp: rv_def intro: noLT_trim)
    qed
    define imps where
      "imps = getImports e f (trim v0) tf td (getIndexIfDir k)"
    have t: "transform e tf td k f v =
       (if imps \<noteq> [] then map (importLine e k (dirname f) rv) imps
        else [''/// No file or directory matched name '' @ [CHR 0x22] @ trim v0
              @ [CHR 0x22] @ '' '' @ signatureGenerated k])"
      using k vn s by (simp add: transform_def Let_def rv_def imps_def)
    show ?thesis
    proof (cases "imps = []")
      case True
      have "noLT (''/// No file or directory matched name '' @ [CHR 0x22] @ trim v0
              @ [CHR 0x22] @ '' '' @ signatureGenerated k)"
        using n0 noLT_signatureGenerated [of k] by (simp add: isLineTerminator_def)
      moreover have "isGenerated k (''/// No file or directory matched name '' @ [CHR 0x22]
              @ trim v0 @ [CHR 0x22] @ '' '' @ signatureGenerated k)"
        by (intro isGenerated_intros)
      ultimately have "regenerable (''/// No file or directory matched name '' @ [CHR 0x22]
              @ trim v0 @ [CHR 0x22] @ '' '' @ signatureGenerated k)"
        by (rule regenerable_noLT)
      with x t True show ?thesis by simp
    next
      case False
      with x t obtain p where p: "p \<in> set imps" and xp: "x = importLine e k (dirname f) rv p"
        by auto
      from p have np: "noLT p"
        unfolding imps_def by (rule getImports_noLT [OF tf td df])
      show ?thesis
        unfolding xp
        by (rule importLine_regenerable [OF eol noLT_dirname [OF f] np nrv mk k])
    qed
  qed
qed

lemma matches_noLT: "matches t l = Some (m1, m2) \<Longrightarrow> noLT m1 \<and> noLT m2"
  by (cases t)
    (auto simp: matchesKey_def noLT_dotStar isLineTerminator_def
      split: option.splits list.splits if_splits)

lemma lineOutputSpec_regenerable:
  assumes eol: "EOL e = [CHR 0x0A] \<or> EOL e = [CHR 0x0D, CHR 0x0A]"
    and tf: "\<forall>p\<in>set tf. noLT p" and td: "\<forall>p\<in>set td. noLT p"
    and df: "\<forall>d. \<forall>p\<in>set (dirFiles e d). noLT p"
    and mk: "\<forall>d p b. noLT d \<longrightarrow> noLT p \<longrightarrow> noLT (makeRelativePath e d p b)"
    and f: "noLT f"
    and g: "\<not> (\<exists>t\<in>set transformers. isGenerated t line)"
  shows "\<exists>block. lineOutputSpec e tf td f line = line # block
     \<and> (\<forall>x\<in>set block. regenerable x)"
proof (cases "find (\<lambda>t. matches t line \<noteq> None) transformers")
  case None
  with g show ?thesis by (simp add: lineOutputSpec_def)
next
  case (Some t)
  from find_in_set [OF Some] obtain m1 m2
    where m: "matches t line = Some (m1, m2)" by auto
  from matches_noLT [OF m] have "noLT (jsAnd m1 (jsAnd m2 (trim m2)))"
    by (auto simp: jsAnd_def intro: noLT_trim)
  from transform_regenerable [OF eol tf td df mk f this]
  have "\<forall>x\<in>set (transform e tf td t f (jsAnd m1 (jsAnd m2 (trim m2)))). regenerable x"
    by blast
  moreover from g Some m
  have "lineOutputSpec e tf td f line
      = line # transform e tf td t f (jsAnd m1 (jsAnd m2 (trim m2)))"
    by (simp add: lineOutputSpec_def)
  ultimately show ?thesis by blast
qed

lemma rerun_generated:
  "\<forall>y\<in>set ys. \<exists>t\<in>set transformers. isGenerated t y \<Longrightarrow>
   concat (map (lineOutputSpec e tf td f) ys) = []"
  by (induction ys) (simp_all add: lineOutputSpec_generated)

lemma rerun_line:
  assumes eol: "EOL e = [CHR 0x0A] \<or> EOL e = [CHR 0x0D, CHR 0x0A]"
    and tf: "\<forall>p\<in>set tf. noLT p" and td: "\<forall>p\<in>set td. noLT p"
    and df: "\<forall>d. \<forall>p\<in>set (dirFiles e d). noLT p"
    and mk: "\<forall>d p b. noLT d \<longrightarrow> noLT p \<longrightarrow> noLT (makeRelativePath e d p b)"
    and f: "noLT f" and l: "noLT line"
  shows "concat (map (lineOutputSpec e tf td f)
           (concat (map splitLines (lineOutputSpec e tf td f line))))
         = lineOutputSpec e tf td f line
     \<and> (\<forall>x\<in>set (lineOutputSpec e tf td f line). x = [] \<or> last x \<noteq> CHR 0x0D)"
proof (cases "\<exists>t\<in>set transformers. isGenerated t line")
  case True
  then show ?thesis by (simp add: lineOutputSpec_generated)
next
  case False
  from lineOutputSpec_regenerable [OF eol tf td df mk f False] obtain block
    where b: "lineOutputSpec e tf td f line = line # block"
      and r: "\<forall>x\<in>set block. regenerable x" by blast
  from r have "\<forall>y\<in>set (concat (map splitLines block)). \<exists>t\<in>set transformers. isGenerated t y"
    by (auto simp: regenerable_def simp del: splitLines.simps)
  then have z: "concat (map (lineOutputSpec e tf td f) (concat (map splitLines block))) = []"
    by (rule rerun_generated)
  have "concat (map (lineOutputSpec e tf td f)
           (concat (map splitLines (line # block))))
      = lineOutputSpec e tf td f line
        @ concat (map (lineOutputSpec e tf td f) (concat (map splitLines block)))"
    using l by (simp add: splitLines_noLT del: splitLines.simps)
  with z b have 1: "concat (map (lineOutputSpec e tf td f)
           (concat (map splitLines (lineOutputSpec e tf td f line))))
         = lineOutputSpec e tf td f line" by simp
  from r noLT_last [OF l] b
  have 2: "\<forall>x\<in>set (lineOutputSpec e tf td f line). x = [] \<or> last x \<noteq> CHR 0x0D"
    by (auto simp: regenerable_def simp del: splitLines.simps)
  from 1 2 show ?thesis by blast
qed

lemma rerun_lines:
  assumes eol: "EOL e = [CHR 0x0A] \<or> EOL e = [CHR 0x0D, CHR 0x0A]"
    and tf: "\<forall>p\<in>set tf. noLT p" and td: "\<forall>p\<in>set td. noLT p"
    and df: "\<forall>d. \<forall>p\<in>set (dirFiles e d). noLT p"
    and mk: "\<forall>d p b. noLT d \<longrightarrow> noLT p \<longrightarrow> noLT (makeRelativePath e d p b)"
    and f: "noLT f"
  shows "\<forall>l\<in>set ls. noLT l \<Longrightarrow>
     concat (map (lineOutputSpec e tf td f)
           (concat (map splitLines (concat (map (lineOutputSpec e tf td f) ls)))))
         = concat (map (lineOutputSpec e tf td f) ls)
     \<and> (\<forall>x\<in>set (concat (map (lineOutputSpec e tf td f) ls)). x = [] \<or> last x \<noteq> CHR 0x0D)"
proof (induction ls)
  case Nil
  show ?case by simp
next
  case (Cons l ls)
  then have nl: "noLT l" and ih: "concat (map (lineOutputSpec e tf td f)
           (concat (map splitLines (concat (map (lineOutputSpec e tf td f) ls)))))
         = concat (map (lineOutputSpec e tf td f) ls)"
    and ih2: "\<forall>x\<in>set (concat (map (lineOutputSpec e tf td f) ls)). x = [] \<or> last x \<noteq> CHR 0x0D"
    by simp_all
  note r = rerun_line [OF eol tf td df mk f nl]
  have "concat (map (lineOutputSpec e tf td f)
           (concat (map splitLines (concat (map (lineOutputSpec e tf td f) (l # ls))))))
      = concat (map (lineOutputSpec e tf td f)
           (concat (map splitLines (lineOutputSpec e tf td f l))))
        @ concat (map (lineOutputSpec e tf td f)
           (concat (map splitLines (concat (map (lineOutputSpec e tf td f) ls)))))"
    by (simp del: splitLines.simps)
  also have "\<dots> = lineOutputSpec e tf td f l @ concat (map (lineOutputSpec e tf td f) ls)"
    by (simp only: r [THEN conjunct1] ih)
  finally have 1: "concat (map (lineOutputSpec e tf td f)
           (concat (map splitLines (concat (map (lineOutputSpec e tf td f) (l # ls))))))
      = concat (map (lineOutputSpec e tf td f) (l # ls))" by simp
  from r [THEN conjunct2] ih2
  have 2: "\<forall>x\<in>set (concat (map (lineOutputSpec e tf td f) (l # ls))). x = [] \<or> last x \<noteq> CHR 0x0D"
    by (auto simp del: splitLines.simps)
  from 1 2 show ?case by blast
qed

lemma lineOutputSpec_empty_line: "lineOutputSpec e tf td f [] = [[]]"
  by (simp add: lineOutputSpec_def transformers_def isGenerated_def signatureGenerated_def
      matchesKey_def sigRest_def)

lemma transformedContent_idem:
  assumes eol: "EOL e = [CHR 0x0A] \<or> EOL e = [CHR 0x0D, CHR 0x0A]"
    and tf: "\<forall>p\<in>set tf. noLT p" and td: "\<forall>p\<in>set td. noLT p"
    and df: "\<forall>d. \<forall>p\<in>set (dirFiles e d). noLT p"
    and mk: "\<forall>d p b. noLT d \<longrightarrow> noLT p \<longrightarrow> noLT (makeRelativePath e d p b)"
    and f: "noLT f"
  shows "transformedContent e tf td f (transformedContent e tf td f c)
         = transformedContent e tf td f c"
proof -
  define out where "out = concat (map (lineOutputSpec e tf td f) (splitLines c))"
  have t: "transformedContent e tf td f s
      = joinWith (EOL e) (concat (map (lineOutputSpec e tf td f) (splitLines s)))" for s
    by (simp only: transformedContent_def transformLoop_concat append_Nil)
  have tc: "transformedContent e tf td f c = joinWith (EOL e) out"
    by (simp only: t out_def)
  have nl: "\<forall>l\<in>set (splitLines c). noLT l"
    using splitLines_lines_noLT by blast
  note r = rerun_lines [OF eol tf td df mk f nl, folded out_def]
  show ?thesis
  proof (cases "out = []")
    case True
    then have "transformedContent e tf td f c = []" by (simp add: tc)
    moreover have "transformedContent e tf td f [] = []"
      by (simp add: t lineOutputSpec_empty_line)
    ultimately show ?thesis by simp
  next
    case False
    have "splitLines (joinWith (EOL e) out) = concat (map splitLines out)"
      using eol False r [THEN conjunct2] by (rule splitLines_joinWith)
    then have "transformedContent e tf td f (joinWith (EOL e) out)
        = joinWith (EOL e) (concat (map (lineOutputSpec e tf td f) (concat (map splitLines out))))"
      by (simp only: t)
    also have "\<dots> = joinWith (EOL e) out" by (simp only: r [THEN conjunct1])
    finally show ?thesis by (simp only: tc)
  qed
qed

text \<open>
  Claim C1, as amended.  Let the host's line ending be \<open>\n\<close> or \<open>\r\n\<close>, let no target
  file, target folder, path found in a directory or path of the processed file hold a
  line terminator, \<open>utils.makeRelativePath\<close> introducing none, and let the stored file hold
  no byte-order mark except possibly one at its very start (which reading removes).
  Then transforming the transformed content gives the transformed content again, a
  second run, reading the file as the first run left it, writes nothing, and the file
  stays as it is.  (A path with a line feed in it breaks a generated line in two, and the
  next run keeps the unmarked half: see the counterexample.)
\<close>

theorem rewrite_is_idempotent:
  assumes "EOL e = [CHR 0x0A] \<or> EOL e = [CHR 0x0D, CHR 0x0A]"
    and "\<forall>p\<in>set tf. noLT p" and "\<forall>p\<in>set td. noLT p"
    and "\<forall>d. \<forall>p\<in>set (dirFiles e d). noLT p"
    and "\<forall>d p b. noLT d \<longrightarrow> noLT p \<longrightarrow> noLT (makeRelativePath e d p b)"
    and "noLT f"
  shows "transformedContent e tf td f (transformedContent e tf td f c)
           = transformedContent e tf td f c
    \<and> processFile e tf td f (readContents (runOnFile e tf td f stored)) = None
    \<and> runOnFile e tf td f (runOnFile e tf td f stored) = runOnFile e tf td f stored"
proof -
  note i = transformedContent_idem [OF assms]
  have p: "processFile e tf td f (readContents (runOnFile e tf td f stored)) = None"
  proof (cases "processFile e tf td f (readContents stored)")
    case None
    then show ?thesis by (simp add: runOnFile_def)
  next
    case (Some t)
    then have t: "t = transformedContent e tf td f (readContents stored)"
      by (auto simp: processFile_def Let_def split: if_splits)
    have "processFile e tf td f t = None"
      unfolding t using i [of "readContents stored"] by (simp add: processFile_def Let_def)
    with Some show ?thesis by (simp add: runOnFile_def)
  qed
  then have "runOnFile e tf td f (runOnFile e tf td f stored) = runOnFile e tf td f stored"
    by (simp add: runOnFile_def [of e tf td f "runOnFile e tf td f stored"])
  with i [of c] p show ?thesis by blast
qed

theorem rewrite_is_idempotent_witness:
  "runOnFile sampleEnv [''lib/a.ts''] [''lib''] ''main.ts''
     (Stored True (''///ts:export=a'' @ [CHR 0x0D, CHR 0x0A] @ ''old ///ts:export:generated''
        @ [CHR 0x0D, CHR 0x0A] @ ''var x;''))
   = Stored False (''///ts:export=a'' @ [CHR 0x0A]
       @ ''import a_file = require('' @ [CHR 0x27] @ ''./lib/a'' @ [CHR 0x27]
       @ ''); ///ts:export:generated'' @ [CHR 0x0A]
       @ ''export var a = a_file; ///ts:export:generated'' @ [CHR 0x0A] @ ''var x;'')
   \<and> processFile sampleEnv [''lib/a.ts''] [''lib''] ''main.ts''
       (readContents (Stored False (''///ts:export=a'' @ [CHR 0x0A]
          @ ''import a_file = require('' @ [CHR 0x27] @ ''./lib/a'' @ [CHR 0x27]
          @ ''); ///ts:export:generated'' @ [CHR 0x0A]
          @ ''export var a = a_file; ///ts:export:generated'' @ [CHR 0x0A] @ ''var x;''))) = None"
proof -
  have 1: "EOL sampleEnv = [CHR 0x0A] \<or> EOL sampleEnv = [CHR 0x0D, CHR 0x0A]"
    by (simp add: sampleEnv_def)
  have 2: "\<forall>p\<in>set [''lib/a.ts'']. noLT p" by (simp add: isLineTerminator_def)
  have 3: "\<forall>p\<in>set [''lib'']. noLT p" by (simp add: isLineTerminator_def)
  have 4: "\<forall>d. \<forall>p\<in>set (dirFiles sampleEnv d). noLT p"
    by (simp add: sampleEnv_def isLineTerminator_def)
  have 5: "\<forall>d p b. noLT d \<longrightarrow> noLT p \<longrightarrow> noLT (makeRelativePath sampleEnv d p b)"
    by (simp add: sampleEnv_def isLineTerminator_def)
  have 6: "noLT ''main.ts''" by (simp add: isLineTerminator_def)
  have v: "runOnFile sampleEnv [''lib/a.ts''] [''lib''] ''main.ts''
     (Stored True (''///ts:export=a'' @ [CHR 0x0D, CHR 0x0A] @ ''old ///ts:export:generated''
        @ [CHR 0x0D, CHR 0x0A] @ ''var x;''))
   = Stored False (''///ts:export=a'' @ [CHR 0x0A]
       @ ''import a_file = require('' @ [CHR 0x27] @ ''./lib/a'' @ [CHR 0x27]
       @ ''); ///ts:export:generated'' @ [CHR 0x0A]
       @ ''export var a = a_file; ///ts:export:generated'' @ [CHR 0x0A] @ ''var x;'')"
    by code_simp
  note T = rewrite_is_idempotent [OF 1 2 3 4 5 6,
      where stored = "Stored True (''///ts:export=a'' @ [CHR 0x0D, CHR 0x0A]
        @ ''old ///ts:export:generated'' @ [CHR 0x0D, CHR 0x0A] @ ''var x;'')"]
  have p: "processFile sampleEnv [''lib/a.ts''] [''lib''] ''main.ts''
       (readContents (Stored False (''///ts:export=a'' @ [CHR 0x0A]
          @ ''import a_file = require('' @ [CHR 0x27] @ ''./lib/a'' @ [CHR 0x27]
          @ ''); ///ts:export:generated'' @ [CHR 0x0A]
          @ ''export var a = a_file; ///ts:export:generated'' @ [CHR 0x0A] @ ''var x;''))) = None"
    using T [THEN conjunct2, THEN conjunct1] by (simp only: v)
  show ?thesis by (rule conjI [OF v p])
qed

theorem line_feed_in_directory_name_counterexample:
  "transformedContent sampleEnv [''a'' @ [CHR 0x0A] @ ''b/index.ts''] [''a'' @ [CHR 0x0A] @ ''b'']
     ''main.ts'' ''///ts:import=index''
   = ''///ts:import=index'' @ [CHR 0x0A]
     @ ''import a'' @ [CHR 0x0A] @ ''b = require('' @ [CHR 0x27] @ ''./a'' @ [CHR 0x0A]
     @ ''b/index'' @ [CHR 0x27] @ ''); ///ts:import:generated''
   \<and> transformedContent sampleEnv [''a'' @ [CHR 0x0A] @ ''b/index.ts''] [''a'' @ [CHR 0x0A] @ ''b'']
     ''main.ts''
     (''///ts:import=index'' @ [CHR 0x0A]
      @ ''import a'' @ [CHR 0x0A] @ ''b = require('' @ [CHR 0x27] @ ''./a'' @ [CHR 0x0A]
      @ ''b/index'' @ [CHR 0x27] @ ''); ///ts:import:generated'')
   = ''///ts:import=index'' @ [CHR 0x0A]
     @ ''import a'' @ [CHR 0x0A] @ ''b = require('' @ [CHR 0x27] @ ''./a'' @ [CHR 0x0A]
     @ ''b/index'' @ [CHR 0x27] @ ''); ///ts:import:generated'' @ [CHR 0x0A]
     @ ''import a'' @ [CHR 0x0A] @ ''b = require('' @ [CHR 0x27] @ ''./a''
   \<and> processFile sampleEnv [''a'' @ [CHR 0x0A] @ ''b/index.ts''] [''a'' @ [CHR 0x0A] @ ''b'']
       ''main.ts''
       (readContents
          (runOnFile sampleEnv [''a'' @ [CHR 0x0A] @ ''b/index.ts''] [''a'' @ [CHR 0x0A] @ ''b'']
             ''main.ts'' (Stored False ''///ts:import=index'')))
     \<noteq> None"
  by code_simp

end
